theory Spec2Isabelle
  imports Complex_Main "HOL-Library.AList" "HOL-Library.Sublist"
begin

section \<open>The history analyzer of repo-therapist (historian/analyze-history.ts)\<close>

text \<open>
  The development embeds the functions of \<^verbatim>\<open>analyze-history.ts\<close> and the interfaces of
  \<^verbatim>\<open>historian/types.ts\<close>.

  Representation choices, fixed once for the whole theory:
  \<^item> A JavaScript \<^verbatim>\<open>number\<close> that the code only ever uses as a counter is a \<open>nat\<close>; the
    apportioned line totals, percentages and day counts are exact rationals (\<open>rat\<close>);
    \<^verbatim>\<open>Math.round\<close> and \<^verbatim>\<open>Math.floor\<close> are \<open>js_round\<close> and \<open>floor\<close>. The weekly average
    of the commit pattern is computed as the code computes it, in double precision: every
    division and multiplication on the way is rounded to the nearest double (\<open>fdiv\<close>,
    \<open>fmul\<close>), and a double is the rational number it denotes.
  \<^item> An ISO date string is represented by the instant it denotes, in epoch milliseconds
    (\<open>int\<close>): the code only looks at dates through \<^verbatim>\<open>new Date(s)\<close>, and the log of
    the version-control system delivers well-formed dates.
  \<^item> An object used as a dictionary (\<^verbatim>\<open>Record<string, T>\<close>) is an association list in
    insertion order, the order in which \<^verbatim>\<open>Object.keys\<close>, \<^verbatim>\<open>Object.values\<close> and
    \<^verbatim>\<open>Object.entries\<close> enumerate keys that are not array indices; a path or an author
    name that is an array index is outside the model. The dictionaries are created as
    \<^verbatim>\<open>{}\<close>, so a lookup of a name that \<^verbatim>\<open>Object.prototype\<close> defines finds the inherited
    member. The passes are first embedded for keys that are no such names
    (\<open>analyzeFileChurn\<close>, \<open>analyzeAuthorStats\<close>); what a run does on such a name, an exception
    in two places, is part of \<open>runFileChurn\<close>, \<open>runAuthorStats\<close> and \<open>analyzeGitHistory\<close>.
  \<^item> \<^verbatim>\<open>Array.prototype.sort\<close> is stable, and so is \<open>sort_key\<close>; sorting descending by
    a number is sorting ascending by its negation.
  \<^item> \<^verbatim>\<open>Date.now()\<close> is a parameter \<open>now\<close> of every function that reads the clock.
  \<^item> Texts assembled from template literals (reasons, details, descriptions) are kept as
    the structured values they are rendered from; the three recommendation texts, which are
    constants of the source, are kept literally.
\<close>

subsection \<open>Numbers, strings, arrays\<close>

definition js_round :: "rat \<Rightarrow> int" where
  \<comment> \<open>\<^verbatim>\<open>Math.round\<close>: the nearest integer, a tie going up.\<close>
  "js_round x = \<lfloor>x + 1 / 2\<rfloor>"

definition msPerDay :: int where
  \<comment> \<open>\<^verbatim>\<open>24 * 60 * 60 * 1000\<close>\<close>
  "msPerDay = 24 * 60 * 60 * 1000"

text \<open>
  Double precision. A finite double other than 0 is \<open>\<plusminus> m * 2 ^ e\<close> with an integer
  \<open>2 ^ 52 \<le> m < 2 ^ 53\<close>; an arithmetic operation of JavaScript delivers the double nearest
  to the exact result, of two equally near ones the one with an even \<open>m\<close>. \<open>binade\<close> scales a
  positive number into the interval from \<open>2 ^ 52\<close> to \<open>2 ^ 53\<close> and returns it with the power
  of two it was scaled by; 2200 steps reach every finite double. Overflow and the
  subnormal numbers, below \<open>2 ^ -1022\<close>, are not modelled: the numbers of this code are
  quotients and products of counts and milliseconds.
\<close>

function binade :: "int \<Rightarrow> rat \<Rightarrow> rat \<Rightarrow> rat \<times> rat" where
  "binade fuel m u =
    (if fuel \<le> 0 then (m, u)
     else if m < 2 ^ 52 then binade (fuel - 1) (m * 2) (u / 2)
     else if 2 ^ 53 \<le> m then binade (fuel - 1) (m / 2) (u * 2)
     else (m, u))"
  by pat_completeness auto
termination by (relation "measure (\<lambda>(fuel, m, u). nat fuel)") auto

definition roundHalfEven :: "rat \<Rightarrow> int" where
  "roundHalfEven m =
    (let f = \<lfloor>m\<rfloor>; d = m - of_int f
     in if d < 1 / 2 then f else if 1 / 2 < d then f + 1 else if even f then f else f + 1)"

definition round64 :: "rat \<Rightarrow> rat" where
  \<comment> \<open>the double nearest to \<open>x\<close>\<close>
  "round64 x =
    (if x = 0 then 0
     else case binade 2200 \<bar>x\<bar> 1 of (m, u) \<Rightarrow> sgn x * of_int (roundHalfEven m) * u)"

definition fdiv :: "rat \<Rightarrow> rat \<Rightarrow> rat" where
  \<comment> \<open>\<^verbatim>\<open>x / y\<close> on doubles, \<open>y\<close> not 0\<close>
  "fdiv x y = round64 (x / y)"

definition fmul :: "rat \<Rightarrow> rat \<Rightarrow> rat" where
  \<comment> \<open>\<^verbatim>\<open>x * y\<close> on doubles\<close>
  "fmul x y = round64 (x * y)"

definition str_includes :: "string \<Rightarrow> string \<Rightarrow> bool" where
  \<comment> \<open>\<^verbatim>\<open>s.includes(t)\<close>\<close>
  "str_includes s t = sublist t s"

definition startsWith :: "string \<Rightarrow> string \<Rightarrow> bool" where
  "startsWith s t = prefix t s"

definition endsWith :: "string \<Rightarrow> string \<Rightarrow> bool" where
  "endsWith s t = suffix t s"

definition slice0 :: "nat \<Rightarrow> 'a list \<Rightarrow> 'a list" where
  \<comment> \<open>\<^verbatim>\<open>xs.slice(0, n)\<close>\<close>
  "slice0 n xs = take n xs"

definition sortDesc :: "('a \<Rightarrow> int) \<Rightarrow> 'a list \<Rightarrow> 'a list" where
  \<comment> \<open>\<^verbatim>\<open>xs.sort((a, b) => key(b) - key(a))\<close>\<close>
  "sortDesc key xs = sort_key (\<lambda>x. - key x) xs"

definition sortAsc :: "('a \<Rightarrow> int) \<Rightarrow> 'a list \<Rightarrow> 'a list" where
  \<comment> \<open>\<^verbatim>\<open>xs.sort((a, b) => key(a) - key(b))\<close>\<close>
  "sortAsc key xs = sort_key key xs"

subsection \<open>The data model (historian/types.ts)\<close>

record CommitInfo =
  hash :: string
  shortHash :: string
  author :: string
  email :: string
  date :: int
  timestamp :: int
  message :: string
  messageFirstLine :: string
  filesChanged :: "string list"
  insertions :: nat
  deletions :: nat
  isMerge :: bool
  isRevert :: bool
  isRefactor :: bool
  isFix :: bool
  isFeature :: bool

record FileChurn =
  path :: string
  totalCommits :: nat
  totalInsertions :: rat
  totalDeletions :: rat
  netChange :: rat
  authors :: "string list"
  authorCount :: nat
  firstCommit :: int
  lastCommit :: int
  daysSinceLastChange :: int
  commitsLast30Days :: nat
  commitsLast90Days :: nat
  churnScore :: int

subsection \<open>File churn (analyzeFileChurn, calculateChurnScore)\<close>

definition calculateChurnScore :: "FileChurn \<Rightarrow> int" where
  "calculateChurnScore fc =
    (let score = (0 :: rat);
         score = score + of_nat (min (totalCommits fc * 2) 30);
         score = (if authorCount fc > 1 then score + of_nat ((authorCount fc - 1) * 5) else score);
         score = (if authorCount fc > 3 then score + 10 else score);
         score = score + of_nat (commitsLast30Days fc * 3);
         score = score + of_nat (commitsLast90Days fc * 1);
         totalChanges = totalInsertions fc + totalDeletions fc;
         score = (if totalChanges > 500 then score + 10 else score);
         score = (if totalChanges > 1000 then score + 10 else score)
     in js_round score)"

definition newFileChurn :: "string \<Rightarrow> CommitInfo \<Rightarrow> FileChurn" where
  \<comment> \<open>the record stored when \<^verbatim>\<open>churn[file]\<close> is absent\<close>
  "newFileChurn file commit =
    \<lparr> path = file, totalCommits = 0, totalInsertions = 0, totalDeletions = 0, netChange = 0,
      authors = [], authorCount = 0, firstCommit = date commit, lastCommit = date commit,
      daysSinceLastChange = 0, commitsLast30Days = 0, commitsLast90Days = 0, churnScore = 0 \<rparr>"

definition touchFile :: "int \<Rightarrow> CommitInfo \<Rightarrow> FileChurn \<Rightarrow> FileChurn" where
  \<comment> \<open>the updates of the inner loop body on \<^verbatim>\<open>fc = churn[file]\<close>; each statement writes one
      field and reads no field that an earlier statement wrote\<close>
  "touchFile now commit fc =
    (let thirtyDaysAgo = now - 30 * 24 * 60 * 60 * 1000;
         ninetyDaysAgo = now - 90 * 24 * 60 * 60 * 1000
     in fc\<lparr> totalCommits := totalCommits fc + 1,
            totalInsertions := totalInsertions fc
              + of_nat (insertions commit) / of_nat (max (length (filesChanged commit)) 1),
            totalDeletions := totalDeletions fc
              + of_nat (deletions commit) / of_nat (max (length (filesChanged commit)) 1),
            authors := (if author commit \<notin> set (authors fc)
                        then authors fc @ [author commit] else authors fc),
            firstCommit := (if date commit < firstCommit fc then date commit else firstCommit fc),
            lastCommit := (if date commit > lastCommit fc then date commit else lastCommit fc),
            commitsLast30Days := (if timestamp commit > thirtyDaysAgo
                                  then commitsLast30Days fc + 1 else commitsLast30Days fc),
            commitsLast90Days := (if timestamp commit > ninetyDaysAgo
                                  then commitsLast90Days fc + 1 else commitsLast90Days fc) \<rparr>)"

definition churnFile :: "int \<Rightarrow> CommitInfo \<Rightarrow> (string \<times> FileChurn) list \<Rightarrow> string
    \<Rightarrow> (string \<times> FileChurn) list" where
  \<comment> \<open>one round of \<^verbatim>\<open>for (const file of commit.filesChanged)\<close>\<close>
  "churnFile now commit churn file =
    (let fc = (case map_of churn file of None \<Rightarrow> newFileChurn file commit | Some fc \<Rightarrow> fc)
     in AList.update file (touchFile now commit fc) churn)"

definition churnCommit :: "int \<Rightarrow> (string \<times> FileChurn) list \<Rightarrow> CommitInfo
    \<Rightarrow> (string \<times> FileChurn) list" where
  \<comment> \<open>one round of \<^verbatim>\<open>for (const commit of commits)\<close>\<close>
  "churnCommit now churn commit = foldl (churnFile now commit) churn (filesChanged commit)"

definition churnFold :: "int \<Rightarrow> CommitInfo list \<Rightarrow> (string \<times> FileChurn) list" where
  "churnFold now commits = foldl (churnCommit now) [] commits"

definition deriveChurn :: "int \<Rightarrow> FileChurn \<Rightarrow> FileChurn" where
  \<comment> \<open>the body of the second loop, \<^verbatim>\<open>// Calculate derived values\<close>; the score is computed
      from the record that already holds the three derived fields\<close>
  "deriveChurn now fc =
    (let fc = fc\<lparr> authorCount := length (authors fc),
                   netChange := totalInsertions fc - totalDeletions fc,
                   daysSinceLastChange := \<lfloor>of_int (now - lastCommit fc) / (of_int msPerDay :: rat)\<rfloor> \<rparr>
     in fc\<lparr> churnScore := calculateChurnScore fc \<rparr>)"

definition analyzeFileChurn :: "int \<Rightarrow> CommitInfo list \<Rightarrow> (string \<times> FileChurn) list" where
  "analyzeFileChurn now commits = map (\<lambda>(file, fc). (file, deriveChurn now fc)) (churnFold now commits)"

text \<open>The churn score as section 4.2 of the specification writes it, before rounding.\<close>

definition spec_churn_formula :: "nat \<Rightarrow> nat \<Rightarrow> nat \<Rightarrow> nat \<Rightarrow> rat \<Rightarrow> rat" where
  "spec_churn_formula commitCount nAuthors last30 last90 totalChanges =
     of_nat (min (commitCount * 2) 30)
   + (if nAuthors > 1 then of_nat ((nAuthors - 1) * 5) else 0)
   + (if nAuthors > 3 then 10 else 0)
   + of_nat (last30 * 3)
   + of_nat (last90 * 1)
   + (if totalChanges > 500 then 10 else 0)
   + (if totalChanges > 1000 then 10 else 0)"

subsection \<open>File ownership (analyzeFileOwnership)\<close>

record AuthorCommits =
  \<comment> \<open>\<^verbatim>\<open>{ count: number; lastCommit: string }\<close>\<close>
  ac_count :: nat
  ac_lastCommit :: int

record Contributor =
  ct_author :: string
  ct_commits :: nat
  ct_percent :: int
  ct_lastCommit :: int

datatype clarity = Clear | Shared | Disputed

record FileOwnership =
  fo_path :: string
  primaryAuthor :: "string option"
  primaryAuthorPercent :: int
  contributors :: "Contributor list"
  ownershipClarity :: clarity

definition tallyFile :: "CommitInfo \<Rightarrow> (string \<times> (string \<times> AuthorCommits) list) list \<Rightarrow> string
    \<Rightarrow> (string \<times> (string \<times> AuthorCommits) list) list" where
  \<comment> \<open>one round of the inner loop that fills \<^verbatim>\<open>fileAuthorCommits\<close>\<close>
  "tallyFile commit fac file =
    (let perAuthor = (case map_of fac file of None \<Rightarrow> [] | Some m \<Rightarrow> m);
         entry = (case map_of perAuthor (author commit) of
                    None \<Rightarrow> \<lparr> ac_count = 0, ac_lastCommit = date commit \<rparr>
                  | Some e \<Rightarrow> e);
         entry = entry\<lparr> ac_count := ac_count entry + 1 \<rparr>;
         entry = (if date commit > ac_lastCommit entry
                  then entry\<lparr> ac_lastCommit := date commit \<rparr> else entry)
     in AList.update file (AList.update (author commit) entry perAuthor) fac)"

definition tallyCommit :: "(string \<times> (string \<times> AuthorCommits) list) list \<Rightarrow> CommitInfo
    \<Rightarrow> (string \<times> (string \<times> AuthorCommits) list) list" where
  "tallyCommit fac commit = foldl (tallyFile commit) fac (filesChanged commit)"

definition fileAuthorCommits :: "CommitInfo list \<Rightarrow> (string \<times> (string \<times> AuthorCommits) list) list" where
  "fileAuthorCommits commits = foldl tallyCommit [] commits"

definition percentOf :: "nat \<Rightarrow> nat \<Rightarrow> int" where
  \<comment> \<open>\<^verbatim>\<open>Math.round((count / totalCommits) * 100)\<close>; a file of the churn table has at least
      one commit, so the divisor is positive wherever the code evaluates this\<close>
  "percentOf n tot = js_round ((of_nat n / of_nat tot) * 100)"

definition contributorsOf :: "(string \<times> AuthorCommits) list \<Rightarrow> nat \<Rightarrow> Contributor list" where
  \<comment> \<open>the local \<^verbatim>\<open>contributors\<close>: every author of the file, sorted, not yet truncated\<close>
  "contributorsOf authorData tot =
    sortDesc (\<lambda>c. int (ct_commits c))
      (map (\<lambda>(a, d). \<lparr> ct_author = a, ct_commits = ac_count d,
                        ct_percent = percentOf (ac_count d) tot,
                        ct_lastCommit = ac_lastCommit d \<rparr>) authorData)"

definition clarityOf :: "Contributor list \<Rightarrow> clarity" where
  "clarityOf cs =
    (let ownershipClarity = Clear
     in if length cs \<ge> 3 \<and> ct_percent (cs ! 0) < 50 then Disputed
        else if length cs \<ge> 2 \<and> ct_percent (cs ! 0) < 70 then Shared
        else ownershipClarity)"

definition authorDataOf :: "(string \<times> (string \<times> AuthorCommits) list) list \<Rightarrow> string
    \<Rightarrow> (string \<times> AuthorCommits) list" where
  \<comment> \<open>\<^verbatim>\<open>fileAuthorCommits[file] || {}\<close>\<close>
  "authorDataOf fac file = (case map_of fac file of None \<Rightarrow> [] | Some m \<Rightarrow> m)"

definition ownershipOf :: "(string \<times> (string \<times> AuthorCommits) list) list \<Rightarrow> string \<Rightarrow> FileChurn
    \<Rightarrow> FileOwnership" where
  \<comment> \<open>the body of \<^verbatim>\<open>for (const file of Object.keys(fileChurn))\<close>\<close>
  "ownershipOf fac file fc =
    (let cs = contributorsOf (authorDataOf fac file) (totalCommits fc)
     in \<lparr> fo_path = file,
          primaryAuthor = (if length cs > 0 then Some (ct_author (cs ! 0)) else None),
          primaryAuthorPercent = (if length cs > 0 then ct_percent (cs ! 0) else 0),
          contributors = slice0 5 cs,
          ownershipClarity = clarityOf cs \<rparr>)"

definition analyzeFileOwnership :: "(string \<times> FileChurn) list \<Rightarrow> CommitInfo list
    \<Rightarrow> (string \<times> FileOwnership) list" where
  \<comment> \<open>an object holds each key once, so the entries of \<^verbatim>\<open>fileChurn\<close> are visited one by
      one and \<^verbatim>\<open>ownership\<close> receives them in the same order\<close>
  "analyzeFileOwnership fileChurn commits =
    (let fac = fileAuthorCommits commits
     in map (\<lambda>(file, fc). (file, ownershipOf fac file fc)) fileChurn)"

subsection \<open>Hot paths and stable core\<close>

datatype riskLevel = High | Medium | Low

datatype hotReason =
    VeryHighChurn int       \<comment> \<open>\<^verbatim>\<open>Very high churn (score: N)\<close>\<close>
  | HighChurn int           \<comment> \<open>\<^verbatim>\<open>High churn (score: N)\<close>\<close>
  | RecentCommits nat       \<comment> \<open>\<^verbatim>\<open>N commits in last 30 days\<close>\<close>
  | DifferentAuthors nat    \<comment> \<open>\<^verbatim>\<open>N different authors\<close>\<close>

record HotPath =
  hp_path :: string
  hp_reason :: "hotReason list"   \<comment> \<open>joined with \<^verbatim>\<open>"; "\<close> in the source\<close>
  hp_churnScore :: int
  hp_recentCommits :: nat
  hp_authorCount :: nat
  hp_riskLevel :: riskLevel

definition isLockfile :: "string \<Rightarrow> bool" where
  "isLockfile p = (str_includes p ''package-lock'' \<or> str_includes p ''yarn.lock'')"

definition hotPathOf :: "string \<times> FileChurn \<Rightarrow> HotPath option" where
  \<comment> \<open>one round of the loop of identifyHotPaths: None when nothing is pushed\<close>
  "hotPathOf e =
    (case e of (p, churn) \<Rightarrow>
      if isLockfile p then None
      else
        let reasons = []; risk = Low;
            (reasons, risk) =
              (if churnScore churn > 50 then (reasons @ [VeryHighChurn (churnScore churn)], High)
               else if churnScore churn > 30
                 then (reasons @ [HighChurn (churnScore churn)], if risk = Low then Medium else risk)
               else (reasons, risk));
            (reasons, risk) =
              (if commitsLast30Days churn \<ge> 5
               then (reasons @ [RecentCommits (commitsLast30Days churn)], High)
               else (reasons, risk));
            (reasons, risk) =
              (if authorCount churn \<ge> 4
               then (reasons @ [DifferentAuthors (authorCount churn)], if risk = Low then Medium else risk)
               else (reasons, risk))
        in if length reasons > 0
           then Some \<lparr> hp_path = p, hp_reason = reasons, hp_churnScore = churnScore churn,
                       hp_recentCommits = commitsLast30Days churn, hp_authorCount = authorCount churn,
                       hp_riskLevel = risk \<rparr>
           else None)"

definition hotCandidates :: "(string \<times> FileChurn) list \<Rightarrow> HotPath list" where
  \<comment> \<open>the array \<^verbatim>\<open>hotPaths\<close> when the loop is over\<close>
  "hotCandidates fileChurn = List.map_filter hotPathOf fileChurn"

definition identifyHotPaths :: "(string \<times> FileChurn) list \<Rightarrow> HotPath list" where
  "identifyHotPaths fileChurn = slice0 20 (sortDesc hp_churnScore (hotCandidates fileChurn))"

definition isStable :: "string \<times> FileChurn \<Rightarrow> bool" where
  "isStable e =
    (case e of (p, churn) \<Rightarrow>
      if totalCommits churn < 2 then False
      else if daysSinceLastChange churn < 60 then False
      else if churnScore churn > 15 then False
      else if str_includes p ''config'' \<or> endsWith p ''.json'' then False
      else True)"

definition identifyStableCore :: "(string \<times> FileChurn) list \<Rightarrow> string list" where
  "identifyStableCore fileChurn =
    map fst (slice0 15 (sortAsc (\<lambda>e. churnScore (snd e)) (filter isStable fileChurn)))"

subsection \<open>Fragile files (identifyFragileFiles)\<close>

datatype evidenceType = EvHighChurn | EvManyAuthors | EvFrequentFixes | EvRecentRewrites | EvYoYoChanges

record Evidence =
  \<comment> \<open>the \<^verbatim>\<open>detail\<close> text is rendered from the same numbers and is left out\<close>
  ev_type :: evidenceType
  ev_severity :: int

record FragileFile =
  ff_path :: string
  ff_reasons :: "string list"
  ff_evidence :: "Evidence list"
  fragileScore :: int
  recommendation :: string

definition fixFile :: "(string \<times> nat) list \<Rightarrow> string \<Rightarrow> (string \<times> nat) list" where
  \<comment> \<open>\<^verbatim>\<open>fixCommitsPerFile[file] = (fixCommitsPerFile[file] || 0) + 1\<close>\<close>
  "fixFile m file = AList.update file ((case map_of m file of None \<Rightarrow> 0 | Some n \<Rightarrow> n) + 1) m"

definition fixCommit :: "(string \<times> nat) list \<Rightarrow> CommitInfo \<Rightarrow> (string \<times> nat) list" where
  "fixCommit m commit = (if isFix commit then foldl fixFile m (filesChanged commit) else m)"

definition fixCommitsPerFile :: "CommitInfo list \<Rightarrow> (string \<times> nat) list" where
  "fixCommitsPerFile commits = foldl fixCommit [] commits"

definition fixesOf :: "(string \<times> nat) list \<Rightarrow> string \<Rightarrow> nat" where
  \<comment> \<open>\<^verbatim>\<open>fixCommitsPerFile[path] || 0\<close>\<close>
  "fixesOf m p = (case map_of m p of None \<Rightarrow> 0 | Some n \<Rightarrow> n)"

definition recommendationOf :: "nat \<Rightarrow> nat \<Rightarrow> string" where
  \<comment> \<open>the three statements that set \<^verbatim>\<open>recommendation\<close>, in the order of the source\<close>
  "recommendationOf nAuthors fixes =
    (let recommendation = ''Review this file for potential refactoring.'';
         recommendation = (if nAuthors \<ge> 4
            then ''Assign clear ownership and document expected behavior.'' else recommendation);
         recommendation = (if fixes \<ge> 3
            then ''Add comprehensive tests and consider a rewrite.'' else recommendation)
     in recommendation)"

definition fragileOf :: "(string \<times> nat) list \<Rightarrow> string \<times> FileChurn \<Rightarrow> FragileFile option" where
  \<comment> \<open>one round of the loop \<^verbatim>\<open>// Analyze each file\<close>: None when nothing is pushed. The five
      tests are independent and each pushes one item to \<^verbatim>\<open>evidence\<close> and one to
      \<^verbatim>\<open>reasons\<close>, so both arrays are the concatenation of what the tests contribute\<close>
  "fragileOf fixMap e =
    (case e of (p, churn) \<Rightarrow>
      let fixes = fixesOf fixMap p;
          totalChange = totalInsertions churn + totalDeletions churn;
          evidence =
            (if churnScore churn > 40
             then [\<lparr> ev_type = EvHighChurn, ev_severity = min 10 (churnScore churn div 5) \<rparr>] else [])
            @ (if authorCount churn \<ge> 4
               then [\<lparr> ev_type = EvManyAuthors, ev_severity = min 10 (int (authorCount churn)) \<rparr>] else [])
            @ (if fixes \<ge> 3
               then [\<lparr> ev_type = EvFrequentFixes, ev_severity = min 10 (int fixes) \<rparr>] else [])
            @ (if commitsLast30Days churn \<ge> 5 \<and> totalCommits churn \<le> 10
               then [\<lparr> ev_type = EvRecentRewrites, ev_severity = 7 \<rparr>] else [])
            @ (if totalChange > 1000 \<and> totalCommits churn > 5
               then [\<lparr> ev_type = EvYoYoChanges, ev_severity = min 10 \<lfloor>totalChange / 200\<rfloor> \<rparr>] else []);
          reasons =
            (if churnScore churn > 40 then [''Frequently rewritten''] else [])
            @ (if authorCount churn \<ge> 4 then [''Unclear ownership''] else [])
            @ (if fixes \<ge> 3 then [''Bug-prone''] else [])
            @ (if commitsLast30Days churn \<ge> 5 \<and> totalCommits churn \<le> 10 then [''Recently volatile''] else [])
            @ (if totalChange > 1000 \<and> totalCommits churn > 5 then [''Heavily modified''] else [])
      in if length evidence > 0
         then Some \<lparr> ff_path = p, ff_reasons = reasons, ff_evidence = evidence,
                     fragileScore = foldl (\<lambda>sum e. sum + ev_severity e) 0 evidence,
                     recommendation = recommendationOf (authorCount churn) fixes \<rparr>
         else None)"

definition fragileCandidates :: "(string \<times> FileChurn) list \<Rightarrow> CommitInfo list \<Rightarrow> FragileFile list" where
  \<comment> \<open>the array \<^verbatim>\<open>fragileFiles\<close> when the loop is over\<close>
  "fragileCandidates fileChurn commits = List.map_filter (fragileOf (fixCommitsPerFile commits)) fileChurn"

definition identifyFragileFiles :: "(string \<times> FileChurn) list \<Rightarrow> (string \<times> FileOwnership) list
    \<Rightarrow> CommitInfo list \<Rightarrow> FragileFile list" where
  \<comment> \<open>the ownership table is a parameter of the source that its body reads into an unused local\<close>
  "identifyFragileFiles fileChurn fileOwnership commits =
    slice0 20 (sortDesc fragileScore (fragileCandidates fileChurn commits))"

subsection \<open>Commit pattern (analyzeCommitPattern)\<close>

datatype patternType = Steady | Burst | Sporadic | Abandoned | Active

record BusiestPeriod =
  bp_start :: int   \<comment> \<open>the day of \<^verbatim>\<open>windowStart\<close>, kept as the instant\<close>
  bp_end :: int
  bp_commits :: nat

record CommitPattern =
  \<comment> \<open>the \<^verbatim>\<open>description\<close> text is rendered from the other fields and is left out\<close>
  cp_type :: patternType
  averageCommitsPerWeek :: rat
  longestGapDays :: int
  busiestPeriod :: "BusiestPeriod option"

definition gapDays :: "CommitInfo \<Rightarrow> CommitInfo \<Rightarrow> rat" where
  \<comment> \<open>\<^verbatim>\<open>(commits[i].timestamp - commits[i + 1].timestamp) / (24 * 60 * 60 * 1000)\<close>\<close>
  "gapDays a b = of_int (timestamp a - timestamp b) / of_int msPerDay"

fun longestGapLoop :: "CommitInfo list \<Rightarrow> int \<Rightarrow> int" where
  \<comment> \<open>\<^verbatim>\<open>for (let i = 0; i < commits.length - 1; i++)\<close>, the list being \<^verbatim>\<open>commits\<close> from i on\<close>
  "longestGapLoop (a # b # cs) longest =
     longestGapLoop (b # cs) (if gapDays a b > of_int longest then \<lfloor>gapDays a b\<rfloor> else longest)"
| "longestGapLoop cs longest = longest"

definition busiestStep :: "CommitInfo list \<Rightarrow> BusiestPeriod option \<times> nat \<Rightarrow> CommitInfo
    \<Rightarrow> BusiestPeriod option \<times> nat" where
  \<comment> \<open>one round of the sliding window loop; the state is \<^verbatim>\<open>(busiestPeriod, maxCommits)\<close>\<close>
  "busiestStep commits st c =
    (case st of (busiest, maxCommits) \<Rightarrow>
      let windowEnd = timestamp c;
          windowStart = windowEnd - 30 * 24 * 60 * 60 * 1000;
          windowCommits = filter (\<lambda>c. timestamp c \<ge> windowStart \<and> timestamp c \<le> windowEnd) commits
      in if length windowCommits > maxCommits
         then (Some \<lparr> bp_start = windowStart, bp_end = windowEnd, bp_commits = length windowCommits \<rparr>,
               length windowCommits)
         else (busiest, maxCommits))"

text \<open>
  The age of the first commit of the sequence and the gaps are quotients of a whole number
  of milliseconds by 86400000 that the code only compares with whole numbers and rounds
  down: such a quotient is a whole number or at least 1/86400000 away from one, and for
  less than \<open>2 ^ 53\<close> milliseconds the nearest double is less than that away from it, on the
  same side of every whole number. They are kept exact. The weekly average goes through
  four roundings, which do change its first decimal (\<open>weekly_average_in_doubles\<close>).
\<close>

definition analyzeCommitPattern :: "int \<Rightarrow> CommitInfo list \<Rightarrow> CommitPattern" where
  "analyzeCommitPattern now commits =
    (if length commits = 0
     then \<lparr> cp_type = Abandoned, averageCommitsPerWeek = 0, longestGapDays = 0, busiestPeriod = None \<rparr>
     else
       let lastCommitAge = (of_int (now - timestamp (commits ! 0)) / of_int msPerDay :: rat)
       in if lastCommitAge > 180
          then \<lparr> cp_type = Abandoned, averageCommitsPerWeek = 0,
                 longestGapDays = \<lfloor>lastCommitAge\<rfloor>, busiestPeriod = None \<rparr>
          else
            let firstCommit = commits ! (length commits - 1);
                daySpan = max 1 (fdiv (of_int (timestamp (commits ! 0) - timestamp firstCommit))
                                      (of_int msPerDay));
                weekSpan = fdiv daySpan 7;
                avg = fdiv (of_int (js_round (fmul (fdiv (of_nat (length commits)) weekSpan) 10))) 10;
                longest = longestGapLoop commits 0;
                busiest = fst (foldl (busiestStep commits) (None, 0) commits);
                ty = (if avg \<ge> 5 then Active
                      else if avg \<ge> 1 then Steady
                      else if longest > 30 then Sporadic
                      else Burst)
            in \<lparr> cp_type = ty, averageCommitsPerWeek = avg, longestGapDays = longest,
                 busiestPeriod = busiest \<rparr>)"

subsection \<open>Timeline (buildTimeline)\<close>

datatype eventType = TCommit | TBurst | TQuietPeriod | TOwnershipChange | TMajorRefactor

datatype eventText =
    FirstLine string           \<comment> \<open>\<^verbatim>\<open>commit.messageFirstLine\<close>\<close>
  | RefactorText string        \<comment> \<open>\<^verbatim>\<open>Refactor: ...\<close>\<close>
  | LargeChange nat string     \<comment> \<open>\<^verbatim>\<open>Large change (N files): ...\<close>\<close>
  | DayGap int                 \<comment> \<open>\<^verbatim>\<open>N day gap in development\<close>\<close>

record TimelineEvent =
  te_date :: int
  te_type :: eventType
  te_description :: eventText
  te_files :: "string list option"
  te_author :: "string option"

definition commitEvent :: "CommitInfo \<Rightarrow> TimelineEvent option" where
  \<comment> \<open>one round of the first loop of buildTimeline: None for \<^verbatim>\<open>continue\<close>\<close>
  "commitEvent commit =
    (if isMerge commit then None
     else
       let ty = TCommit; description = FirstLine (messageFirstLine commit);
           (ty, description) =
             (if isRefactor commit then (TMajorRefactor, RefactorText (messageFirstLine commit))
              else (ty, description));
           description =
             (if length (filesChanged commit) > 10
              then LargeChange (length (filesChanged commit)) (messageFirstLine commit)
              else description)
       in Some \<lparr> te_date = date commit, te_type = ty, te_description = description,
                  te_files = Some (slice0 5 (filesChanged commit)), te_author = Some (author commit) \<rparr>)"

fun quietPeriods :: "CommitInfo list \<Rightarrow> TimelineEvent list" where
  \<comment> \<open>the second loop of buildTimeline, over adjacent pairs\<close>
  "quietPeriods (a # b # cs) =
     (if gapDays a b > 14
      then [\<lparr> te_date = date b, te_type = TQuietPeriod, te_description = DayGap \<lfloor>gapDays a b\<rfloor>,
              te_files = None, te_author = None \<rparr>]
      else []) @ quietPeriods (b # cs)"
| "quietPeriods cs = []"

definition commitEvents :: "CommitInfo list \<Rightarrow> TimelineEvent list" where
  \<comment> \<open>the events pushed by \<^verbatim>\<open>for (const commit of commits.slice(0, 20))\<close>\<close>
  "commitEvents commits = List.map_filter commitEvent (slice0 20 commits)"

definition buildTimeline :: "CommitInfo list \<Rightarrow> (string \<times> FileChurn) list \<Rightarrow> TimelineEvent list" where
  "buildTimeline commits fileChurn = sortDesc te_date (commitEvents commits @ quietPeriods commits)"

subsection \<open>Author statistics (analyzeAuthorStats)\<close>

record AuthorStats =
  as_name :: string
  as_email :: string
  as_totalCommits :: nat
  as_totalInsertions :: nat
  as_totalDeletions :: nat
  filesOwned :: "string list"
  filesContributed :: "string list"
  as_firstCommit :: int
  as_lastCommit :: int
  activeDays :: int
  averageCommitsPerDay :: rat

definition newAuthorStats :: "CommitInfo \<Rightarrow> AuthorStats" where
  "newAuthorStats commit =
    \<lparr> as_name = author commit, as_email = email commit, as_totalCommits = 0,
      as_totalInsertions = 0, as_totalDeletions = 0, filesOwned = [], filesContributed = [],
      as_firstCommit = date commit, as_lastCommit = date commit, activeDays = 0,
      averageCommitsPerDay = 0 \<rparr>"

definition objectPrototypeNames :: "string list" where
  \<comment> \<open>the property names that an object created as \<^verbatim>\<open>{}\<close> inherits from
      \<^verbatim>\<open>Object.prototype\<close>; the inherited value is a function, for \<^verbatim>\<open>__proto__\<close> it is
      \<^verbatim>\<open>Object.prototype\<close> itself: all of them count as true in a condition\<close>
  "objectPrototypeNames =
    [''constructor'', ''__defineGetter__'', ''__defineSetter__'', ''hasOwnProperty'',
     ''__lookupGetter__'', ''__lookupSetter__'', ''isPrototypeOf'', ''propertyIsEnumerable'',
     ''toString'', ''valueOf'', ''__proto__'', ''toLocaleString'']"

definition inheritedName :: "string \<Rightarrow> bool" where
  "inheritedName k = (k \<in> set objectPrototypeNames)"

definition statsCommit :: "(string \<times> AuthorStats) list \<Rightarrow> CommitInfo \<Rightarrow> (string \<times> AuthorStats) list" where
  \<comment> \<open>one round of the loop of analyzeAuthorStats; as in the churn pass, each statement
      writes one field of its own. For an author named like an inherited member,
      \<^verbatim>\<open>!stats[key]\<close> is false, no entry is stored and the updates go to the inherited
      object: the dictionary stays as it is (with a changed file the round throws, see
      \<open>runAuthorStats\<close>)\<close>
  "statsCommit stats commit =
    (if inheritedName (author commit) then stats else
     let a = (case map_of stats (author commit) of None \<Rightarrow> newAuthorStats commit | Some a \<Rightarrow> a)
     in AList.update (author commit)
          (a\<lparr> as_totalCommits := as_totalCommits a + 1,
              as_totalInsertions := as_totalInsertions a + insertions commit,
              as_totalDeletions := as_totalDeletions a + deletions commit,
              filesContributed :=
                 foldl (\<lambda>fs f. if f \<notin> set fs then fs @ [f] else fs) (filesContributed a)
                   (filesChanged commit),
              as_firstCommit := (if date commit < as_firstCommit a then date commit else as_firstCommit a),
              as_lastCommit := (if date commit > as_lastCommit a then date commit else as_lastCommit a) \<rparr>)
          stats)"

definition deriveAuthor :: "AuthorStats \<Rightarrow> AuthorStats" where
  "deriveAuthor a =
    (let daySpan = max 1 \<lfloor>of_int (as_lastCommit a - as_firstCommit a) / (of_int msPerDay :: rat)\<rfloor>
     in a\<lparr> activeDays := daySpan,
            averageCommitsPerDay :=
              of_int (js_round ((of_nat (as_totalCommits a) / of_int daySpan) * 100)) / 100 \<rparr>)"

definition analyzeAuthorStats :: "CommitInfo list \<Rightarrow> (string \<times> AuthorStats) list" where
  "analyzeAuthorStats commits = map (\<lambda>(k, a). (k, deriveAuthor a)) (foldl statsCommit [] commits)"

subsection \<open>Commit extraction (processCommits)\<close>

datatype 'a outcome = Throws | Returns 'a

record LogEntry =
  \<comment> \<open>the fields of an entry of \<^verbatim>\<open>log.all\<close> that the code reads\<close>
  le_hash :: string
  author_name :: string
  author_email :: string
  le_date :: int
  le_message :: string

record GitClient =
  \<comment> \<open>what the calls on \<^verbatim>\<open>git\<close> deliver: \<^verbatim>\<open>log.all\<close> (\<^verbatim>\<open>log.total\<close> is its length) or
      an exception, and for each hash the two texts of \<^verbatim>\<open>git.diff\<close> or an exception\<close>
  gitLog :: "LogEntry list outcome"
  gitDiffNameOnly :: "string \<Rightarrow> string outcome"
  gitDiffStat :: "string \<Rightarrow> string outcome"

definition lowerChar :: "char \<Rightarrow> char" where
  "lowerChar c = (let n = (of_char c :: nat) in if 65 \<le> n \<and> n \<le> 90 then char_of (n + 32) else c)"

definition toLowerCase :: "string \<Rightarrow> string" where
  \<comment> \<open>on the letters A to Z; no word the code searches for has another letter\<close>
  "toLowerCase s = map lowerChar s"

fun splitOn :: "char \<Rightarrow> string \<Rightarrow> string list" where
  \<comment> \<open>\<^verbatim>\<open>s.split(sep)\<close> for a separator of one character\<close>
  "splitOn sep [] = [[]]"
| "splitOn sep (c # cs) =
    (if c = sep then [] # splitOn sep cs
     else (case splitOn sep cs of [] \<Rightarrow> [[c]] | w # ws \<Rightarrow> (c # w) # ws))"

definition isDigit :: "char \<Rightarrow> bool" where
  "isDigit c = (let n = (of_char c :: nat) in 48 \<le> n \<and> n \<le> 57)"

definition parseInt :: "string \<Rightarrow> nat" where
  \<comment> \<open>\<^verbatim>\<open>parseInt(ds, 10)\<close> on a string of digits\<close>
  "parseInt ds = foldl (\<lambda>n c. 10 * n + (of_char c - 48)) 0 ds"

definition countHere :: "string \<Rightarrow> string \<Rightarrow> string \<Rightarrow> bool" where
  \<comment> \<open>does \<^verbatim>\<open>(\d+) WORDs?\(SIGN\)\<close> match at the start of the text\<close>
  "countHere word sign s =
    (let ds = takeWhile isDigit s; rest = dropWhile isDigit s
     in ds \<noteq> [] \<and> (prefix ('' '' @ word @ ''s('' @ sign @ '')'') rest
                  \<or> prefix ('' '' @ word @ ''('' @ sign @ '')'') rest))"

fun findCount :: "string \<Rightarrow> string \<Rightarrow> string \<Rightarrow> string option" where
  \<comment> \<open>\<^verbatim>\<open>stats.match(/(\d+) WORDs?\(SIGN\)/)\<close>: the digits of the leftmost match\<close>
  "findCount word sign [] = None"
| "findCount word sign (c # cs) =
    (if countHere word sign (c # cs) then Some (takeWhile isDigit (c # cs))
     else findCount word sign cs)"

definition processEntry :: "GitClient \<Rightarrow> LogEntry \<Rightarrow> CommitInfo" where
  \<comment> \<open>one round of the loop of processCommits; an exception of either \<^verbatim>\<open>git.diff\<close> leaves the
      variables as they are at that point\<close>
  "processEntry git entry =
    (let (files, ins, del) =
           (case gitDiffNameOnly git (le_hash entry) of
              Throws \<Rightarrow> ([], 0, 0)
            | Returns diff \<Rightarrow>
                let files = filter (\<lambda>f. \<not> str_includes f ''node_modules'')
                              (filter (\<lambda>l. l \<noteq> []) (splitOn (CHR 0x0A) diff))
                in (case gitDiffStat git (le_hash entry) of
                      Throws \<Rightarrow> (files, 0, 0)
                    | Returns stats \<Rightarrow>
                        (files,
                         (case findCount ''insertion'' ''+'' stats of None \<Rightarrow> 0 | Some ds \<Rightarrow> parseInt ds),
                         (case findCount ''deletion'' ''-'' stats of None \<Rightarrow> 0 | Some ds \<Rightarrow> parseInt ds))));
         msg = le_message entry;
         messageLower = toLowerCase msg
     in \<lparr> hash = le_hash entry, shortHash = take 7 (le_hash entry),
          author = author_name entry, email = author_email entry,
          date = le_date entry, timestamp = le_date entry,
          message = msg, messageFirstLine = hd (splitOn (CHR 0x0A) msg),
          filesChanged = files, insertions = ins, deletions = del,
          isMerge = startsWith (toLowerCase msg) ''merge'',
          isRevert = str_includes messageLower ''revert'',
          isRefactor = str_includes messageLower ''refactor'',
          isFix = (str_includes messageLower ''fix'' \<or> str_includes messageLower ''bug''),
          isFeature = (str_includes messageLower ''feat'' \<or> str_includes messageLower ''add''
                       \<or> str_includes messageLower ''implement'') \<rparr>)"


subsection \<open>The aggregate (analyzeGitHistory)\<close>

record GitHistory =
  historyVersion :: string
  analyzedAt :: int
  repoPath :: string
  gh_totalCommits :: nat
  totalAuthors :: nat
  gh_firstCommit :: "CommitInfo option"
  gh_lastCommit :: "CommitInfo option"
  dateRange :: "(int \<times> int) option"
  fileChurn :: "(string \<times> FileChurn) list"
  fileOwnership :: "(string \<times> FileOwnership) list"
  authorStats :: "(string \<times> AuthorStats) list"
  hotPaths :: "HotPath list"
  stableCore :: "string list"
  fragileFiles :: "FragileFile list"
  commitPattern :: CommitPattern
  recentCommits :: "CommitInfo list"
  timeline :: "TimelineEvent list"
  highChurnFiles :: "string list"
  multiAuthorFiles :: "string list"
  recentlyFragile :: "string list"

record Clock =
  \<comment> \<open>the three readings of the clock in one run\<close>
  nowChurn :: int      \<comment> \<open>\<^verbatim>\<open>Date.now()\<close> in analyzeFileChurn\<close>
  nowPattern :: int    \<comment> \<open>\<^verbatim>\<open>Date.now()\<close> in analyzeCommitPattern\<close>
  nowAnalyzed :: int   \<comment> \<open>\<^verbatim>\<open>new Date()\<close> for \<^verbatim>\<open>analyzedAt\<close>\<close>

definition recentlyFragileOf :: "FragileFile list \<Rightarrow> string list" where
  \<comment> \<open>the quick lookup \<^verbatim>\<open>recentlyFragile\<close>, from the array identifyFragileFiles returned\<close>
  "recentlyFragileOf ffs = map ff_path (slice0 10 (filter (\<lambda>f. fragileScore f > 5) ffs))"

definition assemble :: "Clock \<Rightarrow> string \<Rightarrow> CommitInfo list \<Rightarrow> (string \<times> FileChurn) list
    \<Rightarrow> (string \<times> AuthorStats) list \<Rightarrow> GitHistory" where
  \<comment> \<open>the statements of analyzeGitHistory from \<^verbatim>\<open>// Analyze file ownership\<close> to the aggregate\<close>
  "assemble clock rp commits churn stats =
    (let ownership = analyzeFileOwnership churn commits;
         hot = identifyHotPaths churn;
         stable = identifyStableCore churn;
         fragile = identifyFragileFiles churn ownership commits;
         pattern = analyzeCommitPattern (nowPattern clock) commits;
         tl = buildTimeline commits churn;
         highChurn = map path (slice0 10 (sortDesc churnScore (map snd churn)));
         multiAuthor = map path (filter (\<lambda>f. authorCount f \<ge> 3) (map snd churn));
         recentFragile = recentlyFragileOf fragile
     in \<lparr> historyVersion = ''1.0'', analyzedAt = nowAnalyzed clock, repoPath = rp,
          gh_totalCommits = length commits,
          totalAuthors = length stats,
          gh_firstCommit = (if length commits > 0 then Some (commits ! (length commits - 1)) else None),
          gh_lastCommit = (if length commits > 0 then Some (commits ! 0) else None),
          dateRange = (if length commits > 0
                       then Some (date (commits ! (length commits - 1)), date (commits ! 0)) else None),
          fileChurn = churn, fileOwnership = ownership, authorStats = stats,
          hotPaths = hot, stableCore = stable, fragileFiles = fragile, commitPattern = pattern,
          recentCommits = slice0 50 commits, timeline = tl,
          highChurnFiles = highChurn, multiAuthorFiles = multiAuthor,
          recentlyFragile = recentFragile \<rparr>)"

definition buildHistory :: "Clock \<Rightarrow> string \<Rightarrow> CommitInfo list \<Rightarrow> GitHistory" where
  \<comment> \<open>the statements of analyzeGitHistory from \<^verbatim>\<open>// Analyze file churn\<close> to the aggregate,
      when neither pass throws\<close>
  "buildHistory clock rp commits =
     assemble clock rp commits (analyzeFileChurn (nowChurn clock) commits) (analyzeAuthorStats commits)"





section \<open>Notions used in the proofs\<close>

text \<open>
  The two nested loops of the churn pass and of the ownership pass visit the same sequence
  of pairs of a commit and one of its files; \<open>touches\<close> is that sequence, and
  \<open>churnStep\<close> and \<open>tallyStep\<close> are what each pass does at one pair.
\<close>

definition touches :: "CommitInfo list \<Rightarrow> (CommitInfo \<times> string) list" where
  "touches commits = concat (map (\<lambda>c. map (\<lambda>f. (c, f)) (filesChanged c)) commits)"

definition churnStep :: "int \<Rightarrow> (string \<times> FileChurn) list \<Rightarrow> CommitInfo \<times> string \<Rightarrow> (string \<times> FileChurn) list" where
  "churnStep now churn t = churnFile now (fst t) churn (snd t)"

definition tallyStep :: "(string \<times> (string \<times> AuthorCommits) list) list \<Rightarrow> CommitInfo \<times> string
    \<Rightarrow> (string \<times> (string \<times> AuthorCommits) list) list" where
  "tallyStep fac t = tallyFile (fst t) fac (snd t)"

text \<open>
  \<open>tallied\<close> relates the two tables at a file after both passes have visited the same pairs:
  the authors tallied for the file are the authors of its churn record, in the same order,
  and their counts add up to its commit count. \<open>bumpEntry\<close> is the entry that \<open>tallyFile\<close>
  stores for the author of the commit.
\<close>

definition tallied :: "(string \<times> FileChurn) list \<Rightarrow> (string \<times> (string \<times> AuthorCommits) list) list
    \<Rightarrow> string \<Rightarrow> bool" where
  "tallied churn fac f =
    ((map_of churn f = None \<and> map_of fac f = None) \<or>
     (\<exists>fc m. map_of churn f = Some fc \<and> map_of fac f = Some m
         \<and> map fst m = authors fc \<and> distinct (authors fc)
         \<and> sum_list (map (\<lambda>e. ac_count (snd e)) m) = totalCommits fc
         \<and> 1 \<le> totalCommits fc))"

definition bumpEntry :: "CommitInfo \<Rightarrow> (string \<times> AuthorCommits) list \<Rightarrow> AuthorCommits" where
  "bumpEntry c m =
    (let entry = (case map_of m (author c) of
                    None \<Rightarrow> \<lparr> ac_count = 0, ac_lastCommit = date c \<rparr>
                  | Some e \<Rightarrow> e);
         entry = entry\<lparr> ac_count := ac_count entry + 1 \<rparr>
     in (if date c > ac_lastCommit entry then entry\<lparr> ac_lastCommit := date c \<rparr> else entry))"

text \<open>
  \<open>recent now d c\<close>: the commit falls in the trailing window of \<open>d\<close> days; \<open>counted\<close>
  says what the counters of a file are after the churn pass has visited the pairs \<open>ts\<close>.
\<close>

definition recent :: "int \<Rightarrow> int \<Rightarrow> CommitInfo \<Rightarrow> bool" where
  "recent now days c = (timestamp c > now - days * 24 * 60 * 60 * 1000)"

definition counted :: "int \<Rightarrow> (CommitInfo \<times> string) list \<Rightarrow> (string \<times> FileChurn) list \<Rightarrow> string \<Rightarrow> bool" where
  "counted now ts churn f =
    (if f \<in> snd ` set ts
     then (\<exists>fc. map_of churn f = Some fc
            \<and> totalCommits fc = length (filter (\<lambda>t. snd t = f) ts)
            \<and> commitsLast30Days fc
                = length (filter (\<lambda>t. snd t = f \<and> recent now 30 (fst t)) ts)
            \<and> commitsLast90Days fc
                = length (filter (\<lambda>t. snd t = f \<and> recent now 90 (fst t)) ts))
     else map_of churn f = None)"

text \<open>\<open>mkContributor\<close> is the function that analyzeFileOwnership maps over the entries of a file.\<close>

definition mkContributor :: "nat \<Rightarrow> string \<times> AuthorCommits \<Rightarrow> Contributor" where
  "mkContributor tot e =
    \<lparr> ct_author = fst e, ct_commits = ac_count (snd e),
      ct_percent = percentOf (ac_count (snd e)) tot, ct_lastCommit = ac_lastCommit (snd e) \<rparr>"

text \<open>
  The rules of section 4.5 in the words of the specification: when a file qualifies as a hot
  path and at which risk, how many fix commits touched a file, and the order of the
  recommendation as the code has it (fixes first, then authors).
\<close>

definition qualifiesHot :: "FileChurn \<Rightarrow> bool" where
  "qualifiesHot fc = (churnScore fc > 30 \<or> commitsLast30Days fc \<ge> 5 \<or> authorCount fc \<ge> 4)"

definition hotRisk :: "FileChurn \<Rightarrow> riskLevel" where
  "hotRisk fc = (if churnScore fc > 50 \<or> commitsLast30Days fc \<ge> 5 then High else Medium)"

definition fixCount :: "CommitInfo list \<Rightarrow> string \<Rightarrow> nat" where
  "fixCount commits p = sum_list (map (\<lambda>c. if isFix c then count_list (filesChanged c) p else 0) commits)"

definition fragilePriority :: "nat \<Rightarrow> nat \<Rightarrow> string" where
  "fragilePriority fixes nAuthors =
    (if fixes \<ge> 3 then ''Add comprehensive tests and consider a rewrite.''
     else if nAuthors \<ge> 4 then ''Assign clear ownership and document expected behavior.''
     else ''Review this file for potential refactoring.'')"

text \<open>
  For the timeline: a commit that is no merge, the event the first loop pushes for it, and
  the events of the two commit types.
\<close>

definition nonMerge :: "CommitInfo \<Rightarrow> bool" where
  "nonMerge c = (\<not> isMerge c)"

definition isCommitEvent :: "TimelineEvent \<Rightarrow> bool" where
  "isCommitEvent e = (te_type e = TCommit \<or> te_type e = TMajorRefactor)"

definition eventOf :: "CommitInfo \<Rightarrow> TimelineEvent" where
  "eventOf c = the (commitEvent c)"





definition adjacentGaps :: "CommitInfo list \<Rightarrow> rat list" where
  \<comment> \<open>the gaps between neighbours of the sequence, as the loop of analyzeCommitPattern
      computes them\<close>
  "adjacentGaps cs = map (\<lambda>(a, b). gapDays a b) (zip cs (tl cs))"




text \<open>Concrete inputs, for the instances and the counterexamples below.\<close>

definition busyCommit :: "int \<Rightarrow> CommitInfo" where
  "busyCommit now =
    \<lparr> hash = ''0123456789abcdef0123456789abcdef01234567'', shortHash = ''0123456'', author = ''Alice'', email = ''alice@example.org'',
      date = now, timestamp = now, message = ''work'', messageFirstLine = ''work'',
      filesChanged = [''src/a.ts''], insertions = 0, deletions = 0,
      isMerge = False, isRevert = False, isRefactor = False, isFix = False, isFeature = False \<rparr>"

definition busyRecord :: FileChurn where
  "busyRecord =
    \<lparr> path = ''src/a.ts'', totalCommits = 1, totalInsertions = 0, totalDeletions = 0,
      netChange = 0, authors = [''Alice''], authorCount = 1, firstCommit = 0, lastCommit = 0,
      daysSinceLastChange = 0, commitsLast30Days = 1, commitsLast90Days = 1, churnScore = 6 \<rparr>"

definition sampleCommit :: "string \<Rightarrow> int \<Rightarrow> string list \<Rightarrow> nat \<Rightarrow> string \<Rightarrow> CommitInfo" where
  "sampleCommit who t files ins msg =
    \<lparr> hash = ''0123456789abcdef0123456789abcdef01234567'', shortHash = ''0123456'', author = who,
      email = who @ ''@example.org'', date = t, timestamp = t, message = msg, messageFirstLine = msg,
      filesChanged = files, insertions = ins, deletions = 0,
      isMerge = startsWith (toLowerCase msg) ''merge'',
      isRevert = str_includes (toLowerCase msg) ''revert'',
      isRefactor = str_includes (toLowerCase msg) ''refactor'',
      isFix = (str_includes (toLowerCase msg) ''fix'' \<or> str_includes (toLowerCase msg) ''bug''),
      isFeature = (str_includes (toLowerCase msg) ''feat'' \<or> str_includes (toLowerCase msg) ''add''
                   \<or> str_includes (toLowerCase msg) ''implement'') \<rparr>"

definition scenarioA :: "CommitInfo list" where
  "scenarioA =
    [sampleCommit ''Alice'' (5 * msPerDay) [''src/auth.ts''] 10 ''fix login'',
     sampleCommit ''Bob'' (4 * msPerDay) [''src/auth.ts''] 10 ''token refresh'',
     sampleCommit ''Charlie'' (3 * msPerDay) [''src/auth.ts''] 10 ''fix logout'',
     sampleCommit ''Bob'' (2 * msPerDay) [''src/auth.ts''] 10 ''session store'',
     sampleCommit ''Alice'' (1 * msPerDay) [''src/auth.ts''] 10 ''login form'']"

definition contributorsA :: "Contributor list" where
  "contributorsA =
    [\<lparr> ct_author = ''Alice'', ct_commits = 2, ct_percent = 40, ct_lastCommit = 5 * msPerDay \<rparr>,
     \<lparr> ct_author = ''Bob'', ct_commits = 2, ct_percent = 40, ct_lastCommit = 4 * msPerDay \<rparr>,
     \<lparr> ct_author = ''Charlie'', ct_commits = 1, ct_percent = 20, ct_lastCommit = 3 * msPerDay \<rparr>]"

definition ownershipA :: FileOwnership where
  "ownershipA =
    \<lparr> fo_path = ''src/auth.ts'', primaryAuthor = Some ''Alice'', primaryAuthorPercent = 40,
      contributors = contributorsA, ownershipClarity = Disputed \<rparr>"

definition churnA :: FileChurn where
  "churnA =
    \<lparr> path = ''src/auth.ts'', totalCommits = 5, totalInsertions = 50, totalDeletions = 0,
      netChange = 50, authors = [''Alice'', ''Bob'', ''Charlie''], authorCount = 3,
      firstCommit = 1 * msPerDay, lastCommit = 5 * msPerDay,
      daysSinceLastChange = 395, commitsLast30Days = 0, commitsLast90Days = 0, churnScore = 20 \<rparr>"





definition scenarioF :: "CommitInfo list" where
  "scenarioF =
    [sampleCommit ''Alice'' (4 * msPerDay) [''src/a.ts''] 10 ''fix crash on start'',
     sampleCommit ''Bob'' (3 * msPerDay) [''src/a.ts''] 10 ''Fix typo'',
     sampleCommit ''Charlie'' (2 * msPerDay) [''src/a.ts''] 10 ''bugfix for parser'',
     sampleCommit ''Dana'' (1 * msPerDay) [''src/a.ts''] 10 ''fix race'']"

definition churnF :: FileChurn where
  "churnF =
    \<lparr> path = ''src/a.ts'', totalCommits = 4, totalInsertions = 40, totalDeletions = 0,
      netChange = 40, authors = [''Alice'', ''Bob'', ''Charlie'', ''Dana''], authorCount = 4,
      firstCommit = 1 * msPerDay, lastCommit = 4 * msPerDay,
      daysSinceLastChange = 396, commitsLast30Days = 0, commitsLast90Days = 0, churnScore = 33 \<rparr>"

definition fragileF :: FragileFile where
  "fragileF =
    \<lparr> ff_path = ''src/a.ts'', ff_reasons = [''Unclear ownership'', ''Bug-prone''],
      ff_evidence = [\<lparr> ev_type = EvManyAuthors, ev_severity = 4 \<rparr>,
                     \<lparr> ev_type = EvFrequentFixes, ev_severity = 4 \<rparr>],
      fragileScore = 8,
      recommendation = ''Add comprehensive tests and consider a rewrite.'' \<rparr>"

definition highNames :: "string list" where
  "highNames = map (\<lambda>c. ''src/f'' @ [c] @ ''.ts'') ''abcdefghijklmnopqrst''"

definition crowdRecord :: "string \<Rightarrow> string list \<Rightarrow> int \<Rightarrow> FileChurn" where
  "crowdRecord p who score =
    \<lparr> path = p, totalCommits = length who, totalInsertions = 0, totalDeletions = 0,
      netChange = 0, authors = who, authorCount = length who, firstCommit = 0, lastCommit = 0,
      daysSinceLastChange = 400, commitsLast30Days = 0, commitsLast90Days = 0, churnScore = score \<rparr>"

definition crowdTable :: "(string \<times> FileChurn) list" where
  "crowdTable =
     map (\<lambda>n. (n, crowdRecord n [''Alice'', ''Bob'', ''Charlie'', ''Dana'', ''Erin'', ''Frank'', ''Grace''] 54))
       highNames
     @ [(''src/low.ts'', crowdRecord ''src/low.ts'' [''Alice'', ''Bob'', ''Charlie'', ''Dana'', ''Erin'', ''Frank''] 47)]"

definition crowdLow :: FragileFile where
  "crowdLow =
    \<lparr> ff_path = ''src/low.ts'', ff_reasons = [''Frequently rewritten'', ''Unclear ownership''],
      ff_evidence = [\<lparr> ev_type = EvHighChurn, ev_severity = 9 \<rparr>,
                     \<lparr> ev_type = EvManyAuthors, ev_severity = 6 \<rparr>],
      fragileScore = 15,
      recommendation = ''Assign clear ownership and document expected behavior.'' \<rparr>"

definition clock0 :: Clock where
  "clock0 = \<lparr> nowChurn = 400 * msPerDay, nowPattern = 400 * msPerDay, nowAnalyzed = 400 * msPerDay \<rparr>"

definition timelineW :: "CommitInfo list" where
  "timelineW = map (\<lambda>d. sampleCommit ''Bob'' (d * msPerDay) [''src/a.ts''] 10 ''add feature'')
     [20, 19, 18, 17, 16, 15, 14, 13, 12, 11, 10, 9, 8, 7, 6, 5, 4, 3, 2, 1]"

definition timelineCex :: "CommitInfo list" where
  "timelineCex = sampleCommit ''Alice'' (21 * msPerDay) [''src/a.ts''] 10 ''Merge branch dev'' # timelineW"





definition entryRoot :: LogEntry where
  "entryRoot =
    \<lparr> le_hash = ''1f0c2d3e4b5a69788796a5b4c3d2e1f001234567'', author_name = ''Alice'',
      author_email = ''alice@example.org'', le_date = 0, le_message = ''initial commit'' \<rparr>"

definition entryNext :: LogEntry where
  "entryNext =
    \<lparr> le_hash = ''9a8b7c6d5e4f30211203f4e5d6c7b8a9fedcba98'', author_name = ''Bob'',
      author_email = ''bob@example.org'', le_date = 86400000,
      le_message = ''Fix parser bug'' @ [CHR 0x0A] @ ''and add a test'' \<rparr>"




definition gitTwo :: GitClient where
  "gitTwo =
    \<lparr> gitLog = Returns [entryNext, entryRoot],
      gitDiffNameOnly = (\<lambda>h. if h = le_hash entryNext
         then Returns (''src/parser.ts'' @ [CHR 0x0A] @ ''node_modules/x/index.js'' @ [CHR 0x0A]
                       @ ''tests/parser.test.ts'' @ [CHR 0x0A])
         else Throws),
      gitDiffStat = (\<lambda>h. if h = le_hash entryNext
         then Returns ('' src/parser.ts | 12 ++++----'' @ [CHR 0x0A]
                       @ '' 3 files changed, 25 insertions(+), 1 deletion(-)'' @ [CHR 0x0A])
         else Throws) \<rparr>"

definition denseLog :: "CommitInfo list" where
  \<comment> \<open>121 commits over 14784000000 milliseconds, 171 days and a ninth\<close>
  "denseLog =
     sampleCommit ''Alice'' 14784000000 [''src/a.ts''] 10 ''add parser''
     # replicate 119 (sampleCommit ''Bob'' 7000000000 [''src/a.ts''] 10 ''add test'')
     @ [sampleCommit ''Alice'' 0 [''src/a.ts''] 10 ''initial commit'']"





section \<open>Lemmas\<close>

subsection \<open>Rounding and the churn score\<close>

lemma js_round_of_int: "js_round (of_int n) = n"
  unfolding js_round_def by linarith

lemma js_round_of_nat: "js_round (of_nat n) = int n"
  using js_round_of_int [of "int n"] by simp

lemma calculateChurnScore_formula:
  "calculateChurnScore fc =
     js_round (spec_churn_formula (totalCommits fc) (authorCount fc) (commitsLast30Days fc)
       (commitsLast90Days fc) (totalInsertions fc + totalDeletions fc))"
  unfolding calculateChurnScore_def spec_churn_formula_def Let_def
  by (simp add: algebra_simps)

lemma deriveChurn_fields:
  "totalCommits (deriveChurn now fc) = totalCommits fc"
  "commitsLast30Days (deriveChurn now fc) = commitsLast30Days fc"
  "commitsLast90Days (deriveChurn now fc) = commitsLast90Days fc"
  "totalInsertions (deriveChurn now fc) = totalInsertions fc"
  "totalDeletions (deriveChurn now fc) = totalDeletions fc"
  "authors (deriveChurn now fc) = authors fc"
  "path (deriveChurn now fc) = path fc"
  "authorCount (deriveChurn now fc) = length (authors fc)"
  "netChange (deriveChurn now fc) = totalInsertions fc - totalDeletions fc"
  unfolding deriveChurn_def Let_def by simp_all

lemma deriveChurn_score:
  "churnScore (deriveChurn now fc) =
     js_round (spec_churn_formula (totalCommits fc) (length (authors fc)) (commitsLast30Days fc)
       (commitsLast90Days fc) (totalInsertions fc + totalDeletions fc))"
  unfolding deriveChurn_def Let_def
  by (simp add: calculateChurnScore_formula)

lemma analyzeFileChurn_entry:
  assumes "(p, fc) \<in> set (analyzeFileChurn now commits)"
  obtains fc0 where "(p, fc0) \<in> set (churnFold now commits)" "fc = deriveChurn now fc0"
  using assms unfolding analyzeFileChurn_def by auto

lemma produced_score:
  assumes "(p, fc) \<in> set (analyzeFileChurn now commits)"
  shows "churnScore fc =
     js_round (spec_churn_formula (totalCommits fc) (authorCount fc) (commitsLast30Days fc)
       (commitsLast90Days fc) (totalInsertions fc + totalDeletions fc))"
proof -
  from assms obtain fc0 where "fc = deriveChurn now fc0" by (rule analyzeFileChurn_entry)
  then show ?thesis by (simp add: deriveChurn_score deriveChurn_fields)
qed

subsection \<open>The two passes over the commits\<close>

lemma churn_flat_gen:
  "foldl (churnCommit now) acc commits = foldl (churnStep now) acc (touches commits)"
proof (induction commits arbitrary: acc)
  case Nil
  then show ?case by (simp add: touches_def)
next
  case (Cons c cs)
  have "foldl (churnStep now) acc (map (\<lambda>f. (c, f)) (filesChanged c)) = churnCommit now acc c"
    unfolding churnCommit_def by (simp add: foldl_map churnStep_def)
  with Cons show ?case by (simp add: touches_def)
qed

lemma churnFold_flat: "churnFold now commits = foldl (churnStep now) [] (touches commits)"
  unfolding churnFold_def by (rule churn_flat_gen)

lemma tally_flat_gen:
  "foldl tallyCommit acc commits = foldl tallyStep acc (touches commits)"
proof (induction commits arbitrary: acc)
  case Nil
  then show ?case by (simp add: touches_def)
next
  case (Cons c cs)
  have "foldl tallyStep acc (map (\<lambda>f. (c, f)) (filesChanged c)) = tallyCommit acc c"
    unfolding tallyCommit_def by (simp add: foldl_map tallyStep_def)
  with Cons show ?case by (simp add: touches_def)
qed

lemma fileAuthorCommits_flat: "fileAuthorCommits commits = foldl tallyStep [] (touches commits)"
  unfolding fileAuthorCommits_def by (rule tally_flat_gen)

lemma touchFile_fields:
  "totalCommits (touchFile now c fc) = totalCommits fc + 1"
  "path (touchFile now c fc) = path fc"
  "authors (touchFile now c fc) = (if author c \<in> set (authors fc) then authors fc else authors fc @ [author c])"
  "commitsLast30Days (touchFile now c fc)
     = commitsLast30Days fc + (if timestamp c > now - 30 * 24 * 60 * 60 * 1000 then 1 else 0)"
  "commitsLast90Days (touchFile now c fc)
     = commitsLast90Days fc + (if timestamp c > now - 90 * 24 * 60 * 60 * 1000 then 1 else 0)"
  "totalInsertions (touchFile now c fc)
     = totalInsertions fc + of_nat (insertions c) / of_nat (max (length (filesChanged c)) 1)"
  "totalDeletions (touchFile now c fc)
     = totalDeletions fc + of_nat (deletions c) / of_nat (max (length (filesChanged c)) 1)"
  unfolding touchFile_def Let_def by simp_all

lemma sum_update_new:
  "k \<notin> fst ` set al \<Longrightarrow>
   sum_list (map g (AList.update k v al)) = sum_list (map g al) + (g (k, v) :: nat)"
  by (induction al) auto

lemma sum_update_old:
  "map_of al k = Some v0 \<Longrightarrow>
   sum_list (map g (AList.update k v al)) + g (k, v0) = sum_list (map g al) + (g (k, v) :: nat)"
  by (induction al) (auto split: if_splits)

lemma keys_update:
  "map fst (AList.update k v al) = (if k \<in> set (map fst al) then map fst al else map fst al @ [k])"
  by (simp add: update_keys)

lemma churnStep_other:
  "f \<noteq> snd t \<Longrightarrow> map_of (churnStep now churn t) f = map_of churn f"
  unfolding churnStep_def churnFile_def Let_def by (simp add: update_conv')

lemma tallyStep_other:
  "f \<noteq> snd t \<Longrightarrow> map_of (tallyStep fac t) f = map_of fac f"
  unfolding tallyStep_def tallyFile_def Let_def by (simp add: update_conv')

lemma churnStep_same:
  "map_of (churnStep now churn (c, g)) g =
     Some (touchFile now c (case map_of churn g of None \<Rightarrow> newFileChurn g c | Some fc \<Rightarrow> fc))"
  unfolding churnStep_def churnFile_def Let_def fst_conv snd_conv by (simp add: update_conv')

lemma bumpEntry_count:
  "ac_count (bumpEntry c m) = (case map_of m (author c) of None \<Rightarrow> 0 | Some e \<Rightarrow> ac_count e) + 1"
  unfolding bumpEntry_def Let_def by (simp split: option.splits)

lemma tallyStep_same:
  "map_of (tallyStep fac (c, g)) g =
     Some (let m = (case map_of fac g of None \<Rightarrow> [] | Some m \<Rightarrow> m)
           in AList.update (author c) (bumpEntry c m) m)"
  unfolding tallyStep_def tallyFile_def bumpEntry_def Let_def fst_conv snd_conv by (simp add: update_conv')

lemma sum_bump:
  assumes "distinct (map fst m)"
  shows "sum_list (map (\<lambda>e. ac_count (snd e)) (AList.update (author c) (bumpEntry c m) m))
         = sum_list (map (\<lambda>e. ac_count (snd e)) m) + 1"
proof (cases "map_of m (author c)")
  case None
  then have "author c \<notin> fst ` set m" by (simp add: map_of_eq_None_iff)
  then show ?thesis
    using sum_update_new [of "author c" m "\<lambda>e. ac_count (snd e)" "bumpEntry c m"] None
    by (simp add: bumpEntry_count)
next
  case (Some e)
  then show ?thesis
    using sum_update_old [of m "author c" e "\<lambda>e. ac_count (snd e)" "bumpEntry c m"]
    by (simp add: bumpEntry_count)
qed

lemma tallied_step:
  assumes "\<And>f. tallied churn fac f"
  shows "tallied (churnStep now churn t) (tallyStep fac t) f"
proof (cases "f = snd t")
  case False
  then show ?thesis
    using assms [of f] unfolding tallied_def by (simp add: churnStep_other tallyStep_other)
next
  case True
  obtain c g where t: "t = (c, g)" by (cases t)
  with True have fg: "f = g" by simp
  show ?thesis
  proof (cases "map_of churn g")
    case None
    with assms [of g] have "map_of fac g = None" unfolding tallied_def by simp
    with None show ?thesis
      unfolding tallied_def t fg
      by (simp add: churnStep_same tallyStep_same touchFile_fields newFileChurn_def bumpEntry_count)
  next
    case (Some fc)
    with assms [of g] obtain m where m: "map_of fac g = Some m" "map fst m = authors fc"
      "distinct (authors fc)" "sum_list (map (\<lambda>e. ac_count (snd e)) m) = totalCommits fc"
      unfolding tallied_def by auto
    have d: "distinct (map fst m)" using m by simp
    have keys: "map fst (AList.update (author c) (bumpEntry c m) m)
        = (if author c \<in> set (authors fc) then authors fc else authors fc @ [author c])"
      using m(2) by (simp add: keys_update)
    show ?thesis
      unfolding tallied_def t fg
      using Some m keys sum_bump [OF d, of c]
      by (simp add: churnStep_same tallyStep_same touchFile_fields)
  qed
qed

lemma tallied_fold:
  "tallied (foldl (churnStep now) [] ts) (foldl tallyStep [] ts) f"
proof (induction ts arbitrary: f rule: rev_induct)
  case Nil
  then show ?case by (simp add: tallied_def)
next
  case (snoc t ts)
  then show ?case by (simp add: tallied_step)
qed

lemma tallied_analysis:
  "tallied (churnFold now commits) (fileAuthorCommits commits) f"
  by (simp add: churnFold_flat fileAuthorCommits_flat tallied_fold)

lemma churnStep_distinct:
  "distinct (map fst churn) \<Longrightarrow> distinct (map fst (churnStep now churn t))"
  unfolding churnStep_def churnFile_def Let_def by (simp add: distinct_update)

lemma churnFold_distinct: "distinct (map fst (churnFold now commits))"
proof -
  have "distinct (map fst (foldl (churnStep now) [] ts))" for ts
    by (induction ts rule: rev_induct) (simp_all add: churnStep_distinct)
  then show ?thesis by (simp add: churnFold_flat)
qed

subsection \<open>What the churn pass counts\<close>

lemma newFileChurn_fields:
  "totalCommits (newFileChurn f c) = 0"
  "commitsLast30Days (newFileChurn f c) = 0"
  "commitsLast90Days (newFileChurn f c) = 0"
  "authors (newFileChurn f c) = []"
  "path (newFileChurn f c) = f"
  "totalInsertions (newFileChurn f c) = 0"
  "totalDeletions (newFileChurn f c) = 0"
  unfolding newFileChurn_def by simp_all

lemma touchFile_recent:
  "commitsLast30Days (touchFile now c fc) = commitsLast30Days fc + (if recent now 30 c then 1 else 0)"
  "commitsLast90Days (touchFile now c fc) = commitsLast90Days fc + (if recent now 90 c then 1 else 0)"
  unfolding touchFile_def Let_def recent_def by simp_all

lemma counted_step:
  assumes "counted now ts churn f"
  shows "counted now (ts @ [t]) (churnStep now churn t) f"
proof (cases "f = snd t")
  case False
  then show ?thesis
    using assms unfolding counted_def by (simp add: churnStep_other)
next
  case True
  obtain c g where t: "t = (c, g)" by (cases t)
  with True have fg: "f = g" by simp
  show ?thesis
  proof (cases "g \<in> snd ` set ts")
    case False
    with assms have "map_of churn g = None" unfolding counted_def fg by simp
    with False show ?thesis
      unfolding counted_def t fg
      by (auto simp add: churnStep_same touchFile_fields(1) touchFile_recent newFileChurn_fields filter_empty_conv image_iff)
  next
    case True
    with assms obtain fc where "map_of churn g = Some fc"
      "totalCommits fc = length (filter (\<lambda>t. snd t = g) ts)"
      "commitsLast30Days fc
         = length (filter (\<lambda>t. snd t = g \<and> recent now 30 (fst t)) ts)"
      "commitsLast90Days fc
         = length (filter (\<lambda>t. snd t = g \<and> recent now 90 (fst t)) ts)"
      unfolding counted_def fg by auto
    then show ?thesis
      unfolding counted_def t fg
      by (simp add: churnStep_same touchFile_fields(1) touchFile_recent)
  qed
qed

lemma counted_fold: "counted now ts (foldl (churnStep now) [] ts) f"
proof (induction ts rule: rev_induct)
  case Nil
  then show ?case by (simp add: counted_def)
next
  case (snoc t ts)
  then show ?case by (simp add: counted_step)
qed

lemma counted_analysis: "counted now (touches commits) (churnFold now commits) f"
  by (simp add: churnFold_flat counted_fold)

lemma sum_insort_key:
  "sum_list (map g (insort_key f x xs)) = g x + (sum_list (map g xs) :: 'b :: comm_monoid_add)"
  by (induction xs) (simp_all add: ac_simps)

lemma sum_sort_key:
  "sum_list (map g (sort_key f xs)) = (sum_list (map g xs) :: 'b :: comm_monoid_add)"
  by (induction xs) (simp_all add: sum_insort_key)

lemma js_round_near: "\<bar>of_int (js_round x) - x\<bar> \<le> 1 / 2"
  unfolding js_round_def by linarith

lemma sum_round_near:
  "\<bar>of_int (sum_list (map (\<lambda>x. js_round (h x)) xs)) - sum_list (map h xs)\<bar> \<le> of_nat (length xs) / 2"
proof (induction xs)
  case Nil
  then show ?case by simp
next
  case (Cons x xs)
  have "\<bar>of_int (js_round (h x)) - h x\<bar> \<le> 1 / 2" by (rule js_round_near)
  moreover have "\<bar>of_int (sum_list (map (\<lambda>x. js_round (h x)) xs)) - sum_list (map h xs)\<bar>
      \<le> of_nat (length xs) / 2" by (rule Cons.IH)
  ultimately have "\<bar>(of_int (js_round (h x)) - h x)
      + (of_int (sum_list (map (\<lambda>x. js_round (h x)) xs)) - sum_list (map h xs))\<bar>
      \<le> 1 / 2 + of_nat (length xs) / 2"
    by (rule abs_triangle_ineq [THEN order_trans, OF add_mono])
  then show ?case by (simp add: algebra_simps add_divide_distrib)
qed

lemma sum_shares:
  assumes "0 < tot"
  shows "sum_list (map (\<lambda>e. (of_nat (k e) / of_nat tot) * (100 :: rat)) m)
         = of_nat (sum_list (map k m)) / of_nat tot * 100"
  by (induction m) (simp_all add: add_divide_distrib distrib_right)

lemma js_round_formula:
  "js_round (spec_churn_formula n a r q t) =
     int (min (n * 2) 30 + (if a > 1 then (a - 1) * 5 else 0) + (if a > 3 then 10 else 0)
            + r * 3 + q * 1 + (if t > 500 then 10 else 0) + (if t > 1000 then 10 else 0))"
proof -
  have "spec_churn_formula n a r q t =
     of_nat (min (n * 2) 30 + (if a > 1 then (a - 1) * 5 else 0) + (if a > 3 then 10 else 0)
            + r * 3 + q * 1 + (if t > 500 then 10 else 0) + (if t > 1000 then 10 else 0))"
    unfolding spec_churn_formula_def by simp
  then show ?thesis by (simp only: js_round_of_nat)
qed

lemma formula_nonneg: "0 \<le> js_round (spec_churn_formula n a r q t)"
  by (simp only: js_round_formula of_nat_0_le_iff)

lemma formula_recent: "int r * 3 \<le> js_round (spec_churn_formula n a r q t)"
  unfolding js_round_formula by simp

lemma map_of_map_entry:
  "map_of (map (\<lambda>(k, v). (k, h k v)) xs) k = map_option (h k) (map_of xs k)"
  by (induction xs) auto

lemma analyzeFileChurn_lookup:
  "map_of (analyzeFileChurn now commits) p = map_option (deriveChurn now) (map_of (churnFold now commits) p)"
  unfolding analyzeFileChurn_def by (simp add: map_of_map_entry)

lemma analyzeFileChurn_keys:
  "map fst (analyzeFileChurn now commits) = map fst (churnFold now commits)"
  unfolding analyzeFileChurn_def by (induction "churnFold now commits") auto

lemma analyzeFileChurn_distinct: "distinct (map fst (analyzeFileChurn now commits))"
  by (simp add: analyzeFileChurn_keys churnFold_distinct)

lemma analyzeFileChurn_member:
  "(p, fc) \<in> set (analyzeFileChurn now commits) \<longleftrightarrow>
     (\<exists>fc0. map_of (churnFold now commits) p = Some fc0 \<and> fc = deriveChurn now fc0)"
proof -
  have "(p, fc) \<in> set (analyzeFileChurn now commits) \<longleftrightarrow> map_of (analyzeFileChurn now commits) p = Some fc"
    using analyzeFileChurn_distinct [of now commits] by simp
  then show ?thesis by (auto simp add: analyzeFileChurn_lookup)
qed

lemma touches_replicate:
  "filesChanged c = [f] \<Longrightarrow> touches (replicate n c) = replicate n (c, f)"
  unfolding touches_def by (induction n) simp_all

lemma busy_score:
  "\<exists>fc. (''src/a.ts'', fc) \<in> set (analyzeFileChurn now (replicate (Suc n) (busyCommit now)))
      \<and> int (Suc n) * 3 \<le> churnScore fc"
proof -
  let ?c = "busyCommit now"
  let ?ts = "replicate (Suc n) (?c, ''src/a.ts'')"
  have ts: "touches (replicate (Suc n) ?c) = ?ts"
    by (rule touches_replicate) (simp add: busyCommit_def)
  have r: "recent now 30 ?c" by (simp add: recent_def busyCommit_def)
  have "counted now ?ts (churnFold now (replicate (Suc n) ?c)) ''src/a.ts''"
    using counted_analysis [of now "replicate (Suc n) ?c" "''src/a.ts''"] by (simp only: ts)
  then obtain fc0 where fc0: "map_of (churnFold now (replicate (Suc n) ?c)) ''src/a.ts'' = Some fc0"
    and "commitsLast30Days fc0 = length (filter (\<lambda>t. snd t = ''src/a.ts'' \<and> recent now 30 (fst t)) ?ts)"
    unfolding counted_def by auto
  with r have n: "commitsLast30Days fc0 = Suc n" by simp
  have "(''src/a.ts'', deriveChurn now fc0) \<in> set (analyzeFileChurn now (replicate (Suc n) ?c))"
    using fc0 by (simp add: analyzeFileChurn_member)
  moreover have "int (Suc n) * 3 \<le> churnScore (deriveChurn now fc0)"
    using formula_recent [of "commitsLast30Days fc0"] by (simp only: deriveChurn_score n)
  ultimately show ?thesis by blast
qed

lemma busy_value:
  "analyzeFileChurn 0 [busyCommit 0] =
    [(''src/a.ts'', \<lparr> path = ''src/a.ts'', totalCommits = 1, totalInsertions = 0, totalDeletions = 0,
        netChange = 0, authors = [''Alice''], authorCount = 1, firstCommit = 0, lastCommit = 0,
        daysSinceLastChange = 0, commitsLast30Days = 1, commitsLast90Days = 1, churnScore = 6 \<rparr>)]"
  unfolding analyzeFileChurn_def churnFold_def churnCommit_def churnFile_def busyCommit_def
    deriveChurn_def calculateChurnScore_def touchFile_def newFileChurn_def msPerDay_def
  by (simp add: Let_def js_round_of_int [of 6, simplified])

lemma floor_numeral_quot: "\<lfloor>numeral a / numeral b :: rat\<rfloor> = numeral a div numeral b"
  using floor_divide_of_int_eq [of "numeral a" "numeral b", where ?'a = rat] by simp

lemma js_round_numeral: "js_round (numeral a) = numeral a"
  using js_round_of_int [of "numeral a"] by simp

subsection \<open>Sorting, contributors and ownership records\<close>

lemma sortDesc_length: "length (sortDesc key xs) = length xs"
  unfolding sortDesc_def by simp

lemma sortDesc_set: "set (sortDesc key xs) = set xs"
  unfolding sortDesc_def by simp

lemma sortDesc_sum: "sum_list (map g (sortDesc key xs)) = (sum_list (map g xs) :: 'b :: comm_monoid_add)"
  unfolding sortDesc_def by (rule sum_sort_key)

lemma sortDesc_sorted: "sorted_wrt (\<lambda>a b. key a \<ge> key b) (sortDesc key xs)"
proof -
  have "sorted (map (\<lambda>x. - key x) (sortDesc key xs))"
    unfolding sortDesc_def by (rule sorted_sort_key)
  then show ?thesis by (simp add: sorted_map)
qed

lemma sortDesc_filter: "filter P (sortDesc key xs) = sortDesc key (filter P xs)"
  unfolding sortDesc_def by (rule filter_sort)

lemma contributorsOf_alt:
  "contributorsOf m tot = sortDesc (\<lambda>c. int (ct_commits c)) (map (mkContributor tot) m)"
proof -
  have "(\<lambda>(a, d). \<lparr> ct_author = a, ct_commits = ac_count d,
                        ct_percent = percentOf (ac_count d) tot,
                        ct_lastCommit = ac_lastCommit d \<rparr>) = mkContributor tot"
    by (rule ext) (simp add: mkContributor_def split_beta)
  then show ?thesis unfolding contributorsOf_def by simp
qed

lemma contributorsOf_length: "length (contributorsOf m tot) = length m"
  by (simp add: contributorsOf_alt sortDesc_length)

lemma contributorsOf_authors: "ct_author ` set (contributorsOf m tot) = fst ` set m"
  by (simp add: contributorsOf_alt sortDesc_set image_image mkContributor_def)

lemma contributorsOf_commits:
  "sum_list (map ct_commits (contributorsOf m tot)) = sum_list (map (\<lambda>e. ac_count (snd e)) m)"
  by (simp add: contributorsOf_alt sortDesc_sum comp_def mkContributor_def)

lemma contributorsOf_percents:
  "sum_list (map ct_percent (contributorsOf m tot))
     = sum_list (map (\<lambda>e. js_round ((of_nat (ac_count (snd e)) / of_nat tot) * 100)) m)"
  by (simp add: contributorsOf_alt sortDesc_sum comp_def mkContributor_def percentOf_def)

lemma contributorsOf_percent_each:
  "c \<in> set (contributorsOf m tot) \<Longrightarrow> ct_percent c = percentOf (ct_commits c) tot"
  by (auto simp add: contributorsOf_alt sortDesc_set mkContributor_def)

lemma contributorsOf_sorted:
  "sorted_wrt (\<lambda>a b. ct_commits a \<ge> ct_commits b) (contributorsOf m tot)"
  using sortDesc_sorted [of "\<lambda>c. int (ct_commits c)" "map (mkContributor tot) m"]
  by (simp add: contributorsOf_alt)

lemma percents_near_100:
  assumes "sum_list (map (\<lambda>e. ac_count (snd e)) m) = tot" and "0 < tot"
  shows "2 * \<bar>sum_list (map ct_percent (contributorsOf m tot)) - 100\<bar> \<le> int (length m)"
proof -
  let ?h = "\<lambda>e. (of_nat (ac_count (snd e)) / of_nat tot) * (100 :: rat)"
  have "sum_list (map ?h m) = of_nat (sum_list (map (\<lambda>e. ac_count (snd e)) m)) / of_nat tot * 100"
    using assms(2) by (rule sum_shares)
  with assms have total: "sum_list (map ?h m) = 100" by simp
  have "\<bar>of_int (sum_list (map (\<lambda>e. js_round (?h e)) m)) - sum_list (map ?h m)\<bar> \<le> of_nat (length m) / 2"
    by (rule sum_round_near)
  then have "\<bar>of_int (sum_list (map ct_percent (contributorsOf m tot))) - (100 :: rat)\<bar> \<le> of_nat (length m) / 2"
    by (simp only: contributorsOf_percents total)
  then have "(of_int (2 * \<bar>sum_list (map ct_percent (contributorsOf m tot)) - 100\<bar>) :: rat)
      \<le> of_int (int (length m))"
    by simp
  then show ?thesis by (simp only: of_int_le_iff)
qed

lemma analyzeFileOwnership_member:
  "(p, fo) \<in> set (analyzeFileOwnership churn commits) \<longleftrightarrow>
     (\<exists>fc. (p, fc) \<in> set churn \<and> fo = ownershipOf (fileAuthorCommits commits) p fc)"
  unfolding analyzeFileOwnership_def Let_def by auto

lemma analyzeFileOwnership_lookup:
  "map_of (analyzeFileOwnership churn commits) p
     = map_option (ownershipOf (fileAuthorCommits commits) p) (map_of churn p)"
  unfolding analyzeFileOwnership_def Let_def by (simp add: map_of_map_entry)

lemma produced_tally:
  assumes "(p, fc) \<in> set (analyzeFileChurn now commits)"
  obtains m where "authorDataOf (fileAuthorCommits commits) p = m"
    and "map fst m = authors fc" and "distinct (authors fc)"
    and "sum_list (map (\<lambda>e. ac_count (snd e)) m) = totalCommits fc"
    and "1 \<le> totalCommits fc" and "authorCount fc = length (authors fc)"
proof -
  from assms obtain fc0 where fc0: "map_of (churnFold now commits) p = Some fc0"
    and fc: "fc = deriveChurn now fc0"
    by (auto simp add: analyzeFileChurn_member)
  from tallied_analysis [of now commits p] fc0
  obtain m where "map_of (fileAuthorCommits commits) p = Some m" "map fst m = authors fc0"
    "distinct (authors fc0)" "sum_list (map (\<lambda>e. ac_count (snd e)) m) = totalCommits fc0"
    "1 \<le> totalCommits fc0"
    unfolding tallied_def by auto
  then show ?thesis
    using that [of m] by (simp add: authorDataOf_def fc deriveChurn_fields)
qed

lemma scenarioA_churn:
  "analyzeFileChurn (400 * msPerDay) scenarioA = [(''src/auth.ts'', churnA)]"
  by code_simp

lemma scenarioA_contributors:
  "contributorsOf (authorDataOf (fileAuthorCommits scenarioA) ''src/auth.ts'') 5 = contributorsA"
  by code_simp

lemma scenarioA_ownership:
  "analyzeFileOwnership [(''src/auth.ts'', churnA)] scenarioA = [(''src/auth.ts'', ownershipA)]"
  by code_simp

lemma clarityOf_cases:
  "(clarityOf cs = Disputed \<longleftrightarrow> 3 \<le> length cs \<and> ct_percent (hd cs) < 50)
   \<and> (clarityOf cs = Shared \<longleftrightarrow>
         \<not> (3 \<le> length cs \<and> ct_percent (hd cs) < 50) \<and> 2 \<le> length cs \<and> ct_percent (hd cs) < 70)
   \<and> (clarityOf cs = Clear \<longleftrightarrow>
         \<not> (3 \<le> length cs \<and> ct_percent (hd cs) < 50) \<and> \<not> (2 \<le> length cs \<and> ct_percent (hd cs) < 70))"
proof (cases cs)
  case Nil
  then show ?thesis by (simp add: clarityOf_def)
next
  case (Cons c cs')
  then show ?thesis by (simp add: clarityOf_def Let_def)
qed

lemma ownershipOf_fields:
  "ownershipClarity (ownershipOf fac p fc) = clarityOf (contributorsOf (authorDataOf fac p) (totalCommits fc))"
  "contributors (ownershipOf fac p fc) = slice0 5 (contributorsOf (authorDataOf fac p) (totalCommits fc))"
  "fo_path (ownershipOf fac p fc) = p"
  unfolding ownershipOf_def Let_def by simp_all





lemma js_round_zero: "js_round 0 = 0"
  using js_round_of_int [of 0] by simp

lemma js_round_one: "js_round 1 = 1"
  using js_round_of_int [of 1] by simp

lemma js_round_quot:
  "js_round (numeral a / numeral b) = (2 * numeral a + numeral b) div (2 * numeral b)"
proof -
  have "(numeral a / numeral b + 1 / 2 :: rat) = of_int (2 * numeral a + numeral b) / of_int (2 * numeral b)"
    by (simp add: field_simps)
  then show ?thesis
    unfolding js_round_def by (simp only: floor_divide_of_int_eq)
qed

lemmas js_round_eval = js_round_numeral js_round_zero js_round_one js_round_quot



subsection \<open>Hot paths and fragile files\<close>

lemma hotPathOf_None: "hotPathOf (p, fc) = None \<longleftrightarrow> isLockfile p \<or> \<not> qualifiesHot fc"
  unfolding hotPathOf_def qualifiesHot_def Let_def by (simp split: if_splits)

lemma hotPathOf_Some:
  "hotPathOf (p, fc) = Some h \<Longrightarrow>
     hp_path h = p \<and> hp_churnScore h = churnScore fc \<and> hp_recentCommits h = commitsLast30Days fc
     \<and> hp_authorCount h = authorCount fc \<and> hp_riskLevel h = hotRisk fc"
  unfolding hotPathOf_def hotRisk_def Let_def by (auto split: if_splits)

lemma hotPathOf_summary:
  "map_option (\<lambda>h. (hp_path h, hp_churnScore h, hp_riskLevel h)) (hotPathOf (p, fc))
     = (if \<not> isLockfile p \<and> qualifiesHot fc then Some (p, churnScore fc, hotRisk fc) else None)"
proof (cases "hotPathOf (p, fc)")
  case None
  then show ?thesis using hotPathOf_None [of p fc] by auto
next
  case (Some h)
  then have "\<not> (isLockfile p \<or> \<not> qualifiesHot fc)" using hotPathOf_None [of p fc] by simp
  with Some hotPathOf_Some [OF Some] show ?thesis by simp
qed

lemma take_sorted_wrt: "sorted_wrt R xs \<Longrightarrow> sorted_wrt R (take n xs)"
  by (metis append_take_drop_id sorted_wrt_append)

lemma fixFile_count: "fixesOf (fixFile m f) p = fixesOf m p + (if f = p then 1 else 0)"
  unfolding fixesOf_def fixFile_def by (simp add: update_conv')

lemma fixFiles_count: "fixesOf (foldl fixFile m fs) p = fixesOf m p + count_list fs p"
  by (induction fs arbitrary: m) (simp_all add: fixFile_count)

lemma fixCommits_count:
  "fixesOf (foldl fixCommit m commits) p = fixesOf m p + fixCount commits p"
  by (induction commits arbitrary: m) (simp_all add: fixCount_def fixCommit_def fixFiles_count)

lemma fixCommitsPerFile_count: "fixesOf (fixCommitsPerFile commits) p = fixCount commits p"
  unfolding fixCommitsPerFile_def using fixCommits_count [of "[]" commits p]
  by (simp add: fixesOf_def)

lemma recommendationOf_priority: "recommendationOf nAuthors fixes = fragilePriority fixes nAuthors"
  unfolding recommendationOf_def fragilePriority_def Let_def by simp

lemma if_Some_eq: "(if c then Some x else None) = Some y \<Longrightarrow> y = x"
  by (cases c) simp_all

lemma fragileOf_Some:
  assumes "fragileOf fixMap (p, fc) = Some ff"
  shows "ff_path ff = p \<and> recommendation ff = recommendationOf (authorCount fc) (fixesOf fixMap p)"
proof -
  note eq = if_Some_eq [OF assms [unfolded fragileOf_def Let_def prod.case]]
  show ?thesis by (subst (1 2) eq) (simp only: FragileFile.simps simp_thms)
qed

lemma set_map_filter_iff: "x \<in> set (List.map_filter h xs) \<longleftrightarrow> (\<exists>y \<in> set xs. h y = Some x)"
  by (induction xs) (auto split: option.splits)

lemma identifyFragileFiles_subset:
  "set (identifyFragileFiles churn own commits) \<subseteq> set (fragileCandidates churn commits)"
  unfolding identifyFragileFiles_def slice0_def
  using set_take_subset [of 20 "sortDesc fragileScore (fragileCandidates churn commits)"]
  by (simp add: sortDesc_set)

lemma scenarioF_churn: "analyzeFileChurn (400 * msPerDay) scenarioF = [(''src/a.ts'', churnF)]"
  by code_simp

lemma scenarioF_fixes: "fixCount scenarioF ''src/a.ts'' = 4"
  by code_simp

lemma scenarioF_fragile:
  "identifyFragileFiles [(''src/a.ts'', churnF)]
     (analyzeFileOwnership [(''src/a.ts'', churnF)] scenarioF) scenarioF = [fragileF]"
  by code_simp

lemma top_cut:
  "sorted_wrt (\<lambda>a b. key a \<ge> key b) xs \<Longrightarrow> n \<le> length (filter (\<lambda>g. key g > (s :: int)) xs)
     \<Longrightarrow> \<forall>x \<in> set (take n xs). key x > s"
proof (induction xs arbitrary: n)
  case Nil
  then show ?case by simp
next
  case (Cons y ys)
  show ?case
  proof (cases n)
    case 0
    then show ?thesis by simp
  next
    case (Suc k)
    show ?thesis
    proof (cases "key y > s")
      case True
      with Cons.prems Suc have "k \<le> length (filter (\<lambda>g. key g > s) ys)" by simp
      moreover from Cons.prems have "sorted_wrt (\<lambda>a b. key a \<ge> key b) ys" by simp
      ultimately have "\<forall>x \<in> set (take k ys). key x > s" by (rule Cons.IH [rotated])
      with True Suc show ?thesis by simp
    next
      case False
      from Cons.prems have "\<forall>z \<in> set ys. key z \<le> key y" by simp
      with False have "filter (\<lambda>g. key g > s) ys = []" by (auto simp add: filter_empty_conv)
      with False Cons.prems Suc show ?thesis by simp
    qed
  qed
qed

lemma candidate_paths:
  "ff \<in> set (List.map_filter (fragileOf m) churn) \<Longrightarrow> ff_path ff \<in> fst ` set churn"
proof -
  assume "ff \<in> set (List.map_filter (fragileOf m) churn)"
  then obtain e where e: "e \<in> set churn" "fragileOf m e = Some ff"
    by (auto simp add: set_map_filter_iff)
  obtain p fc where pf: "e = (p, fc)" by (cases e)
  with e(2) have "ff_path ff = p" using fragileOf_Some [of m p fc ff] by simp
  with e(1) pf show ?thesis by (metis fst_conv image_eqI)
qed

lemma candidates_distinct:
  "distinct (map fst churn) \<Longrightarrow> distinct (map ff_path (List.map_filter (fragileOf m) churn))"
proof (induction churn)
  case Nil
  then show ?case by simp
next
  case (Cons e es)
  obtain p fc where pf: "e = (p, fc)" by (cases e)
  from Cons have IH: "distinct (map ff_path (List.map_filter (fragileOf m) es))" by simp
  show ?case
  proof (cases "fragileOf m e")
    case None
    with IH show ?thesis by simp
  next
    case (Some ff)
    with pf have "ff_path ff = p" using fragileOf_Some [of m p fc ff] by simp
    moreover from Cons.prems pf have "p \<notin> fst ` set es" by simp
    ultimately have "ff_path ff \<notin> ff_path ` set (List.map_filter (fragileOf m) es)"
      using candidate_paths [of _ m es] by auto
    with IH Some show ?thesis by simp
  qed
qed

lemma recentlyFragileOf_length: "length (recentlyFragileOf ffs) \<le> 10"
  unfolding recentlyFragileOf_def slice0_def by simp

lemma recentlyFragileOf_member:
  "p \<in> set (recentlyFragileOf ffs) \<Longrightarrow> \<exists>f \<in> set ffs. ff_path f = p \<and> fragileScore f > 5"
proof -
  assume "p \<in> set (recentlyFragileOf ffs)"
  then obtain f where "f \<in> set (take 10 (filter (\<lambda>f. fragileScore f > 5) ffs))" "ff_path f = p"
    unfolding recentlyFragileOf_def slice0_def by auto
  moreover then have "f \<in> set (filter (\<lambda>f. fragileScore f > 5) ffs)"
    by (meson in_set_takeD)
  ultimately show ?thesis by auto
qed

lemma crowded_out:
  assumes d: "distinct (map fst churn)"
    and f: "f \<in> set (fragileCandidates churn cs)"
    and n: "20 \<le> length (filter (\<lambda>g. fragileScore g > fragileScore f) (fragileCandidates churn cs))"
  shows "ff_path f \<notin> set (recentlyFragileOf (identifyFragileFiles churn own cs))"
proof
  let ?cands = "fragileCandidates churn cs"
  let ?sorted = "sortDesc fragileScore ?cands"
  assume "ff_path f \<in> set (recentlyFragileOf (identifyFragileFiles churn own cs))"
  then obtain g where g: "g \<in> set (identifyFragileFiles churn own cs)" "ff_path g = ff_path f"
    using recentlyFragileOf_member by blast
  have "length (filter (\<lambda>g. fragileScore g > fragileScore f) ?sorted)
      = length (filter (\<lambda>g. fragileScore g > fragileScore f) ?cands)"
    by (simp add: sortDesc_filter sortDesc_length)
  with n have "20 \<le> length (filter (\<lambda>g. fragileScore g > fragileScore f) ?sorted)" by simp
  with sortDesc_sorted [of fragileScore ?cands]
  have "\<forall>x \<in> set (take 20 ?sorted). fragileScore x > fragileScore f" by (rule top_cut)
  with g(1) have hi: "fragileScore g > fragileScore f"
    unfolding identifyFragileFiles_def slice0_def by simp
  from g(1) have "g \<in> set ?cands" using identifyFragileFiles_subset by blast
  moreover have "distinct (map ff_path ?cands)"
    unfolding fragileCandidates_def using d by (rule candidates_distinct)
  ultimately have "g = f" using f g(2) by (meson distinct_map inj_onD)
  with hi show False by simp
qed

lemma buildHistory_fields:
  "fileChurn (buildHistory clock rp commits) = analyzeFileChurn (nowChurn clock) commits"
  "fileOwnership (buildHistory clock rp commits)
     = analyzeFileOwnership (analyzeFileChurn (nowChurn clock) commits) commits"
  "fragileFiles (buildHistory clock rp commits)
     = identifyFragileFiles (analyzeFileChurn (nowChurn clock) commits)
         (analyzeFileOwnership (analyzeFileChurn (nowChurn clock) commits) commits) commits"
  "recentlyFragile (buildHistory clock rp commits)
     = recentlyFragileOf (identifyFragileFiles (analyzeFileChurn (nowChurn clock) commits)
         (analyzeFileOwnership (analyzeFileChurn (nowChurn clock) commits) commits) commits)"
  "gh_totalCommits (buildHistory clock rp commits) = length commits"
  "commitPattern (buildHistory clock rp commits) = analyzeCommitPattern (nowPattern clock) commits"
  "timeline (buildHistory clock rp commits)
     = buildTimeline commits (analyzeFileChurn (nowChurn clock) commits)"
  unfolding buildHistory_def assemble_def Let_def by simp_all

lemma crowd_distinct: "distinct (map fst crowdTable)"
  by code_simp

lemma crowd_low: "crowdLow \<in> set (fragileCandidates crowdTable [])"
  by code_simp

lemma crowd_scores:
  "map fragileScore (fragileCandidates crowdTable []) = replicate 20 17 @ [15]"
  by code_simp

lemma crowd_recent:
  "recentlyFragileOf (identifyFragileFiles crowdTable [] []) = take 10 highNames"
  by code_simp

lemma crowd_higher:
  "length (filter (\<lambda>g. fragileScore g > fragileScore crowdLow) (fragileCandidates crowdTable [])) = 20"
proof -
  have "length (filter (\<lambda>g. fragileScore g > fragileScore crowdLow) (fragileCandidates crowdTable []))
      = length (filter (\<lambda>v. v > fragileScore crowdLow) (map fragileScore (fragileCandidates crowdTable [])))"
    by (simp add: filter_map comp_def)
  also have "\<dots> = 20" by (simp only: crowd_scores) (simp add: crowdLow_def)
  finally show ?thesis .
qed

subsection \<open>Timeline, commit pattern and the aggregate\<close>

lemma commitEvent_None: "commitEvent c = None \<longleftrightarrow> isMerge c"
  unfolding commitEvent_def Let_def by (simp split: prod.splits)

lemma eventOf_fields:
  "nonMerge c \<Longrightarrow> commitEvent c = Some (eventOf c)"
  "nonMerge c \<Longrightarrow> te_type (eventOf c) = (if isRefactor c then TMajorRefactor else TCommit)"
  "nonMerge c \<Longrightarrow> te_date (eventOf c) = date c"
  "nonMerge c \<Longrightarrow> te_author (eventOf c) = Some (author c)"
  unfolding eventOf_def nonMerge_def commitEvent_def Let_def by (simp_all split: prod.splits)

lemma map_filter_eventOf:
  "List.map_filter commitEvent cs = map eventOf (filter nonMerge cs)"
proof (induction cs)
  case Nil
  then show ?case by simp
next
  case (Cons c cs)
  show ?case
  proof (cases "isMerge c")
    case True
    then have "commitEvent c = None" by (simp add: commitEvent_None)
    with True Cons show ?thesis by (simp add: nonMerge_def)
  next
    case False
    then have "nonMerge c" by (simp add: nonMerge_def)
    with Cons eventOf_fields(1) [of c] show ?thesis by simp
  qed
qed

lemma commitEvents_alt: "commitEvents commits = map eventOf (filter nonMerge (take 20 commits))"
  unfolding commitEvents_def slice0_def by (rule map_filter_eventOf)

lemma commitEvents_all: "filter isCommitEvent (commitEvents commits) = commitEvents commits"
proof -
  have "isCommitEvent (eventOf c)" if "nonMerge c" for c
    using that by (simp add: isCommitEvent_def eventOf_fields)
  then have "\<forall>e \<in> set (commitEvents commits). isCommitEvent e"
    unfolding commitEvents_alt by auto
  then show ?thesis by (simp only: filter_id_conv)
qed

lemma quietPeriods_none: "filter isCommitEvent (quietPeriods cs) = []"
  by (induction cs rule: quietPeriods.induct) (simp_all add: isCommitEvent_def)

lemma timeline_commit_events:
  "filter isCommitEvent (buildTimeline commits churn) = sortDesc te_date (commitEvents commits)"
  unfolding buildTimeline_def by (simp add: sortDesc_filter commitEvents_all quietPeriods_none)

lemma timeline_count:
  "length (filter isCommitEvent (buildTimeline commits churn)) = length (filter nonMerge (take 20 commits))"
  by (simp add: timeline_commit_events sortDesc_length commitEvents_alt)

lemma filter_all_iff: "length (filter P xs) = length xs \<longleftrightarrow> (\<forall>x \<in> set xs. P x)"
  by (metis filter_id_conv length_filter_le filter_True length_filter_less not_less_iff_gr_or_eq
      order_less_irrefl)

lemma timelineW_flags: "list_all nonMerge timelineW" "length timelineW = 20"
  by code_simp+

lemma timelineCex_head: "isMerge (hd timelineCex)"
  by code_simp

lemma binade_numeral: "binade (numeral k) m u =
     (if m < 2 ^ 52 then binade (numeral k - 1) (m * 2) (u / 2)
      else if 2 ^ 53 \<le> m then binade (numeral k - 1) (m / 2) (u * 2)
      else (m, u))"
  by (subst binade.simps) simp

lemmas double_eval = round64_def binade_numeral roundHalfEven_def fdiv_def fmul_def
    floor_numeral_quot Let_def

lemma adjacentGaps_simps:
  "adjacentGaps [] = []"
  "adjacentGaps [a] = []"
  "adjacentGaps (a # b # cs) = gapDays a b # adjacentGaps (b # cs)"
  unfolding adjacentGaps_def by simp_all

lemma gap_step: "(if g > of_int l then \<lfloor>g\<rfloor> else l) = max l \<lfloor>g :: rat\<rfloor>"
proof (cases "g > of_int l")
  case True
  then have "l \<le> \<lfloor>g\<rfloor>" by (simp add: le_floor_iff)
  with True show ?thesis by simp
next
  case False
  then have "\<lfloor>g\<rfloor> \<le> l" by (simp add: floor_le_iff)
  with False show ?thesis by simp
qed

lemma longestGapLoop_fold:
  "longestGapLoop cs l = foldl max l (map floor (adjacentGaps cs))"
  by (induction cs l rule: longestGapLoop.induct) (simp_all add: adjacentGaps_simps gap_step)

lemma foldl_max_Max: "foldl max l xs = Max (set ((l :: int) # xs))"
proof -
  have "foldl max l xs = fold max xs l"
    by (simp add: foldl_conv_fold max.commute)
  then show ?thesis by (simp only: Max.set_eq_fold)
qed

lemma floor_Max:
  "\<lfloor>Max (set ((x :: rat) # xs))\<rfloor> = Max (set (\<lfloor>x\<rfloor> # map floor xs))"
proof -
  have "mono (floor :: rat \<Rightarrow> int)" by (rule monoI) (rule floor_mono)
  then have "\<lfloor>Max (set (x # xs))\<rfloor> = Max (floor ` set (x # xs))"
    by (rule mono_Max_commute) simp_all
  then show ?thesis by simp
qed

lemma longestGapLoop_whole: "longestGapLoop cs 0 = \<lfloor>Max (set (0 # adjacentGaps cs))\<rfloor>"
  by (simp only: longestGapLoop_fold foldl_max_Max floor_Max floor_zero)











lemma analyzeCommitPattern_live:
  assumes "commits \<noteq> []"
    and "\<not> (of_int (now - timestamp (hd commits)) / of_int msPerDay :: rat) > 180"
  shows "averageCommitsPerWeek (analyzeCommitPattern now commits)
       = fdiv (of_int (js_round (fmul (fdiv (of_nat (length commits))
            (fdiv (max 1 (fdiv (of_int (timestamp (hd commits) - timestamp (last commits)))
                            (of_int msPerDay))) 7)) 10))) 10"
    and "longestGapDays (analyzeCommitPattern now commits) = \<lfloor>Max (set (0 # adjacentGaps commits))\<rfloor>"
    and "cp_type (analyzeCommitPattern now commits) =
       (if averageCommitsPerWeek (analyzeCommitPattern now commits) \<ge> 5 then Active
        else if averageCommitsPerWeek (analyzeCommitPattern now commits) \<ge> 1 then Steady
        else if longestGapDays (analyzeCommitPattern now commits) > 30 then Sporadic
        else Burst)"
  using assms unfolding analyzeCommitPattern_def Let_def
  by (simp_all add: hd_conv_nth last_conv_nth longestGapLoop_whole)










lemma denseLog_facts:
  "denseLog \<noteq> []" "timestamp (hd denseLog) = 14784000000" "timestamp (last denseLog) = 0"
  "length denseLog = 121"
  by (simp_all add: denseLog_def sampleCommit_def)

lemma weekly_average_in_doubles:
  "averageCommitsPerWeek (analyzeCommitPattern 14784000000 denseLog) = round64 (49 / 10)"
  "cp_type (analyzeCommitPattern 14784000000 denseLog) = Steady"
  "of_int (js_round (121 / (14784000000 / 86400000 / 7) * 10)) / (10 :: rat) = 5"
proof -
  have live: "\<not> (of_int (14784000000 - timestamp (hd denseLog)) / of_int msPerDay :: rat) > 180"
    by (simp add: denseLog_facts)
  show a: "averageCommitsPerWeek (analyzeCommitPattern 14784000000 denseLog) = round64 (49 / 10)"
    by (simp only: analyzeCommitPattern_live(1) [OF denseLog_facts(1) live] denseLog_facts)
       (simp add: msPerDay_def double_eval js_round_eval)
  have "round64 (49 / 10) < 5" "1 \<le> round64 (49 / 10)"
    by (simp_all add: double_eval)
  then show "cp_type (analyzeCommitPattern 14784000000 denseLog) = Steady"
    by (simp only: analyzeCommitPattern_live(3) [OF denseLog_facts(1) live] a) simp
  show "of_int (js_round (121 / (14784000000 / 86400000 / 7) * 10)) / (10 :: rat) = 5"
    by (simp add: js_round_eval)
qed

lemma processEntry_example:
  "filesChanged (processEntry gitTwo entryNext) = [''src/parser.ts'', ''tests/parser.test.ts'']"
  "insertions (processEntry gitTwo entryNext) = 25"
  "deletions (processEntry gitTwo entryNext) = 1"
  "messageFirstLine (processEntry gitTwo entryNext) = ''Fix parser bug''"
  "isFix (processEntry gitTwo entryNext)" "isFeature (processEntry gitTwo entryNext)"
  "\<not> isMerge (processEntry gitTwo entryNext)"
  "filesChanged (processEntry gitTwo entryRoot) = []"
  "insertions (processEntry gitTwo entryRoot) = 0"
  by code_simp+





















section \<open>The claims\<close>

subsection \<open>C1: the churn score\<close>

text \<open>
  C1. Every record that the churn pass produces carries the rounded value of the formula of
  section 4.2, evaluated at its own fields (so the score is a function of the commit count,
  the author count, the two recent-activity counters and the sum of the apportioned
  insertions and deletions), and the score is never negative. No bound holds for all
  repositories: for every number some commit sequence yields a record with a larger score.
\<close>

theorem churn_score_formula:
  "(\<forall>(p, fc) \<in> set (analyzeFileChurn now commits).
      churnScore fc = js_round (spec_churn_formula (totalCommits fc) (authorCount fc)
          (commitsLast30Days fc) (commitsLast90Days fc) (totalInsertions fc + totalDeletions fc))
      \<and> 0 \<le> churnScore fc)
   \<and> (\<forall>bound. \<exists>commits' p fc. (p, fc) \<in> set (analyzeFileChurn now commits') \<and> bound < churnScore fc)"
proof (intro conjI ballI allI)
  fix e assume e: "e \<in> set (analyzeFileChurn now commits)"
  obtain p fc where pf: "e = (p, fc)" by (cases e)
  with e have "churnScore fc = js_round (spec_churn_formula (totalCommits fc) (authorCount fc)
          (commitsLast30Days fc) (commitsLast90Days fc) (totalInsertions fc + totalDeletions fc))"
    by (simp add: produced_score)
  then show "case e of (p, fc) \<Rightarrow>
      churnScore fc = js_round (spec_churn_formula (totalCommits fc) (authorCount fc)
          (commitsLast30Days fc) (commitsLast90Days fc) (totalInsertions fc + totalDeletions fc))
      \<and> 0 \<le> churnScore fc"
    unfolding pf by (simp only: prod.case formula_nonneg simp_thms)
next
  fix bound :: int
  obtain fc where "(''src/a.ts'', fc) \<in> set (analyzeFileChurn now (replicate (Suc (nat bound)) (busyCommit now)))"
    and "int (Suc (nat bound)) * 3 \<le> churnScore fc"
    using busy_score [of now "nat bound"] by blast
  moreover have "bound < int (Suc (nat bound)) * 3" by simp
  ultimately have "(''src/a.ts'', fc) \<in> set (analyzeFileChurn now (replicate (Suc (nat bound)) (busyCommit now)))"
    and "bound < churnScore fc" by simp_all
  then
  show "\<exists>commits' p fc. (p, fc) \<in> set (analyzeFileChurn now commits') \<and> bound < churnScore fc"
    by blast
qed

theorem churn_score_formula_witness:
  "(''src/a.ts'', busyRecord) \<in> set (analyzeFileChurn 0 [busyCommit 0])
   \<and> churnScore busyRecord = js_round (spec_churn_formula 1 1 1 1 0)
   \<and> churnScore busyRecord = 6"
proof -
  have m: "(''src/a.ts'', busyRecord) \<in> set (analyzeFileChurn 0 [busyCommit 0])"
    by (simp add: busy_value busyRecord_def)
  have "\<forall>(p, fc) \<in> set (analyzeFileChurn 0 [busyCommit 0]).
      churnScore fc = js_round (spec_churn_formula (totalCommits fc) (authorCount fc)
          (commitsLast30Days fc) (commitsLast90Days fc) (totalInsertions fc + totalDeletions fc))
      \<and> 0 \<le> churnScore fc"
    using churn_score_formula [of 0 "[busyCommit 0]"] by (rule conjunct1)
  with m have "churnScore busyRecord = js_round (spec_churn_formula (totalCommits busyRecord)
      (authorCount busyRecord) (commitsLast30Days busyRecord) (commitsLast90Days busyRecord)
      (totalInsertions busyRecord + totalDeletions busyRecord))"
    by blast
  with m show ?thesis by (simp add: busyRecord_def)
qed

subsection \<open>C2: the ownership verdict\<close>

text \<open>
  C2. For every ownership record of a run, with \<open>cs\<close> the contributors of the file before
  truncation (all its authors, each with the rounded percentage of the file's commits, in
  descending order of commits): the verdict is disputed exactly when \<open>cs\<close> has at least
  three members and the first one's percentage is below 50; it is shared exactly when that
  fails, \<open>cs\<close> has at least two members and the first one's percentage is below 70; it is
  clear exactly when both tests fail; and the record keeps the first five of \<open>cs\<close>.
\<close>

theorem ownership_clarity_rule:
  "\<forall>(p, fo) \<in> set (analyzeFileOwnership (analyzeFileChurn now commits) commits).
     \<exists>fc cs. (p, fc) \<in> set (analyzeFileChurn now commits)
       \<and> cs = contributorsOf (authorDataOf (fileAuthorCommits commits) p) (totalCommits fc)
       \<and> ct_author ` set cs = set (authors fc) \<and> length cs = authorCount fc
       \<and> (\<forall>c \<in> set cs. ct_percent c = percentOf (ct_commits c) (totalCommits fc))
       \<and> sorted_wrt (\<lambda>a b. ct_commits a \<ge> ct_commits b) cs
       \<and> (ownershipClarity fo = Disputed \<longleftrightarrow> 3 \<le> length cs \<and> ct_percent (hd cs) < 50)
       \<and> (ownershipClarity fo = Shared \<longleftrightarrow>
             \<not> (3 \<le> length cs \<and> ct_percent (hd cs) < 50) \<and> 2 \<le> length cs \<and> ct_percent (hd cs) < 70)
       \<and> (ownershipClarity fo = Clear \<longleftrightarrow>
             \<not> (3 \<le> length cs \<and> ct_percent (hd cs) < 50) \<and> \<not> (2 \<le> length cs \<and> ct_percent (hd cs) < 70))
       \<and> contributors fo = take 5 cs"
proof (intro ballI)
  fix e assume e: "e \<in> set (analyzeFileOwnership (analyzeFileChurn now commits) commits)"
  obtain p fo where pf: "e = (p, fo)" by (cases e)
  with e obtain fc where mem: "(p, fc) \<in> set (analyzeFileChurn now commits)"
    and fo: "fo = ownershipOf (fileAuthorCommits commits) p fc"
    by (auto simp add: analyzeFileOwnership_member)
  define cs where "cs = contributorsOf (authorDataOf (fileAuthorCommits commits) p) (totalCommits fc)"
  from mem obtain m where m: "authorDataOf (fileAuthorCommits commits) p = m"
    "map fst m = authors fc" "authorCount fc = length (authors fc)"
    by (rule produced_tally)
  have "fst ` set m = set (authors fc)" using m(2) by (metis set_map)
  then have a: "ct_author ` set cs = set (authors fc)"
    by (simp add: cs_def m(1) contributorsOf_authors)
  have "length m = length (authors fc)" using m(2) by (metis length_map)
  then have b: "length cs = authorCount fc"
    by (simp add: cs_def m(1) m(3) contributorsOf_length)
  have c: "\<forall>c \<in> set cs. ct_percent c = percentOf (ct_commits c) (totalCommits fc)"
    by (simp add: cs_def contributorsOf_percent_each)
  have d: "sorted_wrt (\<lambda>a b. ct_commits a \<ge> ct_commits b) cs"
    unfolding cs_def by (rule contributorsOf_sorted)
  have cl: "ownershipClarity fo = clarityOf cs"
    by (simp add: fo cs_def ownershipOf_fields)
  have t: "contributors fo = take 5 cs"
    by (simp add: fo cs_def ownershipOf_fields slice0_def)
  from clarityOf_cases [of cs] cl
  have f: "(ownershipClarity fo = Disputed \<longleftrightarrow> 3 \<le> length cs \<and> ct_percent (hd cs) < 50)"
    "(ownershipClarity fo = Shared \<longleftrightarrow>
             \<not> (3 \<le> length cs \<and> ct_percent (hd cs) < 50) \<and> 2 \<le> length cs \<and> ct_percent (hd cs) < 70)"
    "(ownershipClarity fo = Clear \<longleftrightarrow>
             \<not> (3 \<le> length cs \<and> ct_percent (hd cs) < 50) \<and> \<not> (2 \<le> length cs \<and> ct_percent (hd cs) < 70))"
    by simp_all
  show "case e of (p, fo) \<Rightarrow>
     \<exists>fc cs. (p, fc) \<in> set (analyzeFileChurn now commits)
       \<and> cs = contributorsOf (authorDataOf (fileAuthorCommits commits) p) (totalCommits fc)
       \<and> ct_author ` set cs = set (authors fc) \<and> length cs = authorCount fc
       \<and> (\<forall>c \<in> set cs. ct_percent c = percentOf (ct_commits c) (totalCommits fc))
       \<and> sorted_wrt (\<lambda>a b. ct_commits a \<ge> ct_commits b) cs
       \<and> (ownershipClarity fo = Disputed \<longleftrightarrow> 3 \<le> length cs \<and> ct_percent (hd cs) < 50)
       \<and> (ownershipClarity fo = Shared \<longleftrightarrow>
             \<not> (3 \<le> length cs \<and> ct_percent (hd cs) < 50) \<and> 2 \<le> length cs \<and> ct_percent (hd cs) < 70)
       \<and> (ownershipClarity fo = Clear \<longleftrightarrow>
             \<not> (3 \<le> length cs \<and> ct_percent (hd cs) < 50) \<and> \<not> (2 \<le> length cs \<and> ct_percent (hd cs) < 70))
       \<and> contributors fo = take 5 cs"
    unfolding pf prod.case
    apply (rule exI [of _ fc])
    apply (rule exI [of _ cs])
    using mem cs_def a b c d f t by (intro conjI)
qed

theorem ownership_clarity_rule_witness:
  "(''src/auth.ts'', ownershipA)
     \<in> set (analyzeFileOwnership (analyzeFileChurn (400 * msPerDay) scenarioA) scenarioA)
   \<and> contributorsOf (authorDataOf (fileAuthorCommits scenarioA) ''src/auth.ts'') (totalCommits churnA)
       = contributorsA
   \<and> (ownershipClarity ownershipA = Disputed \<longleftrightarrow>
         3 \<le> length contributorsA \<and> ct_percent (hd contributorsA) < 50)
   \<and> ownershipClarity ownershipA = Disputed
   \<and> length contributorsA = authorCount churnA
   \<and> contributors ownershipA = take 5 contributorsA"
proof -
  have m: "(''src/auth.ts'', ownershipA)
     \<in> set (analyzeFileOwnership (analyzeFileChurn (400 * msPerDay) scenarioA) scenarioA)"
    by (simp add: scenarioA_churn scenarioA_ownership)
  have "case (''src/auth.ts'', ownershipA) of (p, fo) \<Rightarrow>
     \<exists>fc cs. (p, fc) \<in> set (analyzeFileChurn (400 * msPerDay) scenarioA)
       \<and> cs = contributorsOf (authorDataOf (fileAuthorCommits scenarioA) p) (totalCommits fc)
       \<and> ct_author ` set cs = set (authors fc) \<and> length cs = authorCount fc
       \<and> (\<forall>c \<in> set cs. ct_percent c = percentOf (ct_commits c) (totalCommits fc))
       \<and> sorted_wrt (\<lambda>a b. ct_commits a \<ge> ct_commits b) cs
       \<and> (ownershipClarity fo = Disputed \<longleftrightarrow> 3 \<le> length cs \<and> ct_percent (hd cs) < 50)
       \<and> (ownershipClarity fo = Shared \<longleftrightarrow>
             \<not> (3 \<le> length cs \<and> ct_percent (hd cs) < 50) \<and> 2 \<le> length cs \<and> ct_percent (hd cs) < 70)
       \<and> (ownershipClarity fo = Clear \<longleftrightarrow>
             \<not> (3 \<le> length cs \<and> ct_percent (hd cs) < 50) \<and> \<not> (2 \<le> length cs \<and> ct_percent (hd cs) < 70))
       \<and> contributors fo = take 5 cs"
    using ownership_clarity_rule [of "400 * msPerDay" scenarioA] m by (rule bspec)
  then obtain fc cs where fc: "(''src/auth.ts'', fc) \<in> set (analyzeFileChurn (400 * msPerDay) scenarioA)"
    and cs: "cs = contributorsOf (authorDataOf (fileAuthorCommits scenarioA) ''src/auth.ts'') (totalCommits fc)"
    and len: "length cs = authorCount fc"
    and dis: "ownershipClarity ownershipA = Disputed \<longleftrightarrow> 3 \<le> length cs \<and> ct_percent (hd cs) < 50"
    and top: "contributors ownershipA = take 5 cs"
    unfolding prod.case by (elim exE conjE) (rule that)
  from fc have "fc = churnA" by (simp add: scenarioA_churn)
  with cs have c: "contributorsOf (authorDataOf (fileAuthorCommits scenarioA) ''src/auth.ts'') (totalCommits churnA)
       = contributorsA" "cs = contributorsA"
    using scenarioA_contributors by (simp_all add: churnA_def)
  have d: "ownershipClarity ownershipA = Disputed" by (simp add: ownershipA_def)
  from m c d dis len top \<open>fc = churnA\<close> show ?thesis by (simp only: simp_thms)
qed

subsection \<open>C3: the recommendation of a fragile file\<close>

text \<open>
  C3, as the code has it. The recommendation of every fragile file is the tests-plus-rewrite
  text when at least 3 fix commits touched the file; else the assign-clear-ownership text
  when the file has at least 4 authors; else the generic text. The later assignment of the
  source overrides the earlier one, so with both at least 4 authors and at least 3 fixes the
  recommendation is the tests-plus-rewrite one.
\<close>

theorem fragile_recommendation:
  "\<forall>ff \<in> set (identifyFragileFiles churn own commits).
     \<exists>fc. (ff_path ff, fc) \<in> set churn
       \<and> fixesOf (fixCommitsPerFile commits) (ff_path ff) = fixCount commits (ff_path ff)
       \<and> recommendation ff = fragilePriority (fixCount commits (ff_path ff)) (authorCount fc)"
proof
  fix ff assume "ff \<in> set (identifyFragileFiles churn own commits)"
  with identifyFragileFiles_subset [of churn own commits]
  have "ff \<in> set (fragileCandidates churn commits)" by (rule subsetD)
  then have "\<exists>e \<in> set churn. fragileOf (fixCommitsPerFile commits) e = Some ff"
    unfolding fragileCandidates_def by (simp only: set_map_filter_iff)
  then obtain e where e: "e \<in> set churn" "fragileOf (fixCommitsPerFile commits) e = Some ff"
    by (rule bexE)
  obtain p fc where pf: "e = (p, fc)" by (cases e)
  from e(2) have "fragileOf (fixCommitsPerFile commits) (p, fc) = Some ff" by (simp only: pf)
  then have f: "ff_path ff = p \<and> recommendation ff
      = recommendationOf (authorCount fc) (fixesOf (fixCommitsPerFile commits) p)"
    by (rule fragileOf_Some)
  from e(1) have m: "(p, fc) \<in> set churn" by (simp only: pf)
  have "(ff_path ff, fc) \<in> set churn
       \<and> fixesOf (fixCommitsPerFile commits) (ff_path ff) = fixCount commits (ff_path ff)
       \<and> recommendation ff = fragilePriority (fixCount commits (ff_path ff)) (authorCount fc)"
    using f m by (simp only: recommendationOf_priority fixCommitsPerFile_count simp_thms)
  then show "\<exists>fc. (ff_path ff, fc) \<in> set churn
       \<and> fixesOf (fixCommitsPerFile commits) (ff_path ff) = fixCount commits (ff_path ff)
       \<and> recommendation ff = fragilePriority (fixCount commits (ff_path ff)) (authorCount fc)"
    by (rule exI)
qed

text \<open>
  The claim as stated fails: four authors, each with one fix commit to the same file, give
  the tests-plus-rewrite recommendation.
\<close>

theorem fragile_recommendation_counterexample:
  "analyzeFileChurn (400 * msPerDay) scenarioF = [(''src/a.ts'', churnF)]
   \<and> identifyFragileFiles (analyzeFileChurn (400 * msPerDay) scenarioF)
        (analyzeFileOwnership (analyzeFileChurn (400 * msPerDay) scenarioF) scenarioF) scenarioF
       = [fragileF]
   \<and> 4 \<le> authorCount churnF \<and> 3 \<le> fixCount scenarioF ''src/a.ts''
   \<and> recommendation fragileF = ''Add comprehensive tests and consider a rewrite.''
   \<and> recommendation fragileF \<noteq> ''Assign clear ownership and document expected behavior.''"
proof -
  have "identifyFragileFiles (analyzeFileChurn (400 * msPerDay) scenarioF)
        (analyzeFileOwnership (analyzeFileChurn (400 * msPerDay) scenarioF) scenarioF) scenarioF
       = [fragileF]"
    by (simp only: scenarioF_churn scenarioF_fragile)
  moreover have "4 \<le> authorCount churnF" by (simp add: churnF_def)
  moreover have "3 \<le> fixCount scenarioF ''src/a.ts''" by (simp add: scenarioF_fixes)
  moreover have "recommendation fragileF = ''Add comprehensive tests and consider a rewrite.''"
    "recommendation fragileF \<noteq> ''Assign clear ownership and document expected behavior.''"
    by (simp_all add: fragileF_def)
  ultimately show ?thesis using scenarioF_churn by (intro conjI)
qed

theorem fragile_recommendation_witness:
  "fragileF \<in> set (identifyFragileFiles (analyzeFileChurn (400 * msPerDay) scenarioF)
        (analyzeFileOwnership (analyzeFileChurn (400 * msPerDay) scenarioF) scenarioF) scenarioF)
   \<and> (ff_path fragileF, churnF) \<in> set (analyzeFileChurn (400 * msPerDay) scenarioF)
   \<and> fixesOf (fixCommitsPerFile scenarioF) (ff_path fragileF) = fixCount scenarioF (ff_path fragileF)
   \<and> recommendation fragileF = fragilePriority (fixCount scenarioF (ff_path fragileF)) (authorCount churnF)"
proof -
  let ?churn = "analyzeFileChurn (400 * msPerDay) scenarioF"
  have m: "fragileF \<in> set (identifyFragileFiles ?churn (analyzeFileOwnership ?churn scenarioF) scenarioF)"
    by (simp only: scenarioF_churn scenarioF_fragile) simp
  with fragile_recommendation [of ?churn "analyzeFileOwnership ?churn scenarioF" scenarioF]
  have "\<exists>fc. (ff_path fragileF, fc) \<in> set ?churn
       \<and> fixesOf (fixCommitsPerFile scenarioF) (ff_path fragileF) = fixCount scenarioF (ff_path fragileF)
       \<and> recommendation fragileF = fragilePriority (fixCount scenarioF (ff_path fragileF)) (authorCount fc)"
    by (rule bspec)
  then obtain fc where fc: "(ff_path fragileF, fc) \<in> set ?churn"
    and r: "fixesOf (fixCommitsPerFile scenarioF) (ff_path fragileF) = fixCount scenarioF (ff_path fragileF)"
      "recommendation fragileF = fragilePriority (fixCount scenarioF (ff_path fragileF)) (authorCount fc)"
    by (elim exE conjE) (rule that)
  from fc have "fc = churnF" by (simp add: scenarioF_churn)
  with m fc r show ?thesis by (simp only: simp_thms)
qed

subsection \<open>C4: commit events of the timeline\<close>

text \<open>
  C4, as the code has it. The timeline builder looks at the 20 most recent commits, merges
  included, and emits one event for each of them that is no merge, of type major-refactor
  when the commit is flagged as a refactoring and commit otherwise. The commit events of
  the timeline are these events, sorted; their number is the number of non-merge commits
  among the 20 most recent commits, so at most 20, and 20 exactly when there are at least
  20 commits and none of the 20 most recent ones is a merge.
\<close>

theorem timeline_commit_count:
  "filter isCommitEvent (buildTimeline commits churn) = sortDesc te_date (commitEvents commits)
   \<and> commitEvents commits = map eventOf (filter nonMerge (take 20 commits))
   \<and> (\<forall>c \<in> set (filter nonMerge (take 20 commits)).
         te_type (eventOf c) = (if isRefactor c then TMajorRefactor else TCommit)
         \<and> te_date (eventOf c) = date c \<and> te_author (eventOf c) = Some (author c))
   \<and> length (filter isCommitEvent (buildTimeline commits churn))
       = length (filter nonMerge (take 20 commits))
   \<and> length (filter isCommitEvent (buildTimeline commits churn)) \<le> 20
   \<and> (length (filter isCommitEvent (buildTimeline commits churn)) = 20
        \<longleftrightarrow> 20 \<le> length commits \<and> (\<forall>c \<in> set (take 20 commits). nonMerge c))"
proof -
  have le: "length (filter nonMerge (take 20 commits)) \<le> length (take 20 commits)"
    by (rule length_filter_le)
  have "length (take 20 commits) \<le> 20" by simp
  with le have b: "length (filter nonMerge (take 20 commits)) \<le> 20" by (rule order_trans)
  have c: "length (filter nonMerge (take 20 commits)) = 20
        \<longleftrightarrow> 20 \<le> length commits \<and> (\<forall>c \<in> set (take 20 commits). nonMerge c)"
  proof
    assume a: "length (filter nonMerge (take 20 commits)) = 20"
    with le have "20 \<le> length (take 20 commits)" by simp
    then have l: "20 \<le> length commits" by simp
    then have "length (take 20 commits) = 20" by simp
    with a have "length (filter nonMerge (take 20 commits)) = length (take 20 commits)" by simp
    then have "\<forall>c \<in> set (take 20 commits). nonMerge c" by (simp only: filter_all_iff)
    with l show "20 \<le> length commits \<and> (\<forall>c \<in> set (take 20 commits). nonMerge c)" by simp
  next
    assume a: "20 \<le> length commits \<and> (\<forall>c \<in> set (take 20 commits). nonMerge c)"
    then have "\<forall>c \<in> set (take 20 commits). nonMerge c" by (rule conjunct2)
    then have "length (filter nonMerge (take 20 commits)) = length (take 20 commits)"
      by (simp only: filter_all_iff)
    with a show "length (filter nonMerge (take 20 commits)) = 20" by simp
  qed
  have d: "\<forall>c \<in> set (filter nonMerge (take 20 commits)).
         te_type (eventOf c) = (if isRefactor c then TMajorRefactor else TCommit)
         \<and> te_date (eventOf c) = date c \<and> te_author (eventOf c) = Some (author c)"
    by (simp add: eventOf_fields)
  note n = timeline_count [of commits churn]
  show ?thesis
    using timeline_commit_events [of commits churn] commitEvents_alt [of commits] d n
      b [folded n] c [folded n]
    by (intro conjI)
qed

text \<open>
  The claim as stated fails: one merge commit followed by 20 other commits gives 19 commit
  events, although 20 commits are no merges.
\<close>

theorem timeline_commit_count_counterexample:
  "20 \<le> length (filter nonMerge timelineCex)
   \<and> isMerge (hd timelineCex)
   \<and> length (filter isCommitEvent
        (buildTimeline timelineCex (analyzeFileChurn (400 * msPerDay) timelineCex))) = 19"
proof -
  have w: "filter nonMerge timelineW = timelineW"
    using timelineW_flags(1) by (simp add: list_all_iff)
  have m: "\<not> nonMerge (sampleCommit ''Alice'' (21 * msPerDay) [''src/a.ts''] 10 ''Merge branch dev'')"
    using timelineCex_head by (simp add: timelineCex_def nonMerge_def)
  have a: "20 \<le> length (filter nonMerge timelineCex)"
    using w m timelineW_flags(2) by (simp add: timelineCex_def)
  have "take 20 timelineCex
      = sampleCommit ''Alice'' (21 * msPerDay) [''src/a.ts''] 10 ''Merge branch dev'' # take 19 timelineW"
    by (simp add: timelineCex_def)
  moreover have "filter nonMerge (take 19 timelineW) = take 19 timelineW"
    using timelineW_flags(1) by (metis filter_id_conv in_set_takeD list_all_iff)
  ultimately have "length (filter nonMerge (take 20 timelineCex)) = 19"
    using m timelineW_flags(2) by simp
  then have "length (filter isCommitEvent
        (buildTimeline timelineCex (analyzeFileChurn (400 * msPerDay) timelineCex))) = 19"
    by (simp only: timeline_count)
  with a timelineCex_head show ?thesis by (intro conjI)
qed

theorem timeline_commit_count_witness:
  "20 \<le> length timelineW \<and> list_all nonMerge (take 20 timelineW)
   \<and> length (filter isCommitEvent (buildTimeline timelineW (analyzeFileChurn (400 * msPerDay) timelineW))) = 20
   \<and> hd timelineW \<in> set (filter nonMerge (take 20 timelineW))
   \<and> te_type (eventOf (hd timelineW)) = (if isRefactor (hd timelineW) then TMajorRefactor else TCommit)
   \<and> te_date (eventOf (hd timelineW)) = date (hd timelineW)"
proof -
  let ?churn = "analyzeFileChurn (400 * msPerDay) timelineW"
  note t = timeline_commit_count [of timelineW ?churn]
  have l: "20 \<le> length timelineW" by (simp add: timelineW_flags)
  have n: "list_all nonMerge (take 20 timelineW)"
    using timelineW_flags by simp
  then have b: "\<forall>c \<in> set (take 20 timelineW). nonMerge c" by (simp only: list_all_iff)
  from t have "length (filter isCommitEvent (buildTimeline timelineW ?churn)) = 20
        \<longleftrightarrow> 20 \<le> length timelineW \<and> (\<forall>c \<in> set (take 20 timelineW). nonMerge c)"
    by (elim conjE)
  with l b have c: "length (filter isCommitEvent (buildTimeline timelineW ?churn)) = 20" by simp
  have "timelineW \<noteq> []" using timelineW_flags(2) by auto
  then obtain a list where al: "timelineW = a # list" by (cases timelineW) simp_all
  have "hd timelineW \<in> set (take 20 timelineW)"
    by (simp add: al)
  with b have h: "hd timelineW \<in> set (filter nonMerge (take 20 timelineW))" by simp
  from t have "\<forall>c \<in> set (filter nonMerge (take 20 timelineW)).
         te_type (eventOf c) = (if isRefactor c then TMajorRefactor else TCommit)
         \<and> te_date (eventOf c) = date c \<and> te_author (eventOf c) = Some (author c)"
    by (elim conjE)
  with h have "te_type (eventOf (hd timelineW)) = (if isRefactor (hd timelineW) then TMajorRefactor else TCommit)
         \<and> te_date (eventOf (hd timelineW)) = date (hd timelineW)
         \<and> te_author (eventOf (hd timelineW)) = Some (author (hd timelineW))"
    by (rule bspec [rotated])
  with l n c h show ?thesis by (simp only: simp_thms)
qed

subsection \<open>C5: a file with one author and one commit\<close>




subsection \<open>C6: an aggregate or null\<close>




subsection \<open>C7: the commit pattern\<close>




subsection \<open>C8: hot paths\<close>

text \<open>
  C8. A file yields a hot path exactly when its path is no lockfile and its churn score is
  above 30, or it has at least 5 commits in the last 30 days, or at least 4 authors. The risk
  of such an entry is high when the score is above 50 or the file has at least 5 recent
  commits, and medium otherwise: no later test lowers a risk that is high. The result is
  the list of these entries sorted descending by churn score and cut after 20.
\<close>

theorem hot_paths_rule:
  "map_option (\<lambda>h. (hp_path h, hp_churnScore h, hp_riskLevel h)) (hotPathOf (p, fc))
     = (if \<not> isLockfile p \<and> qualifiesHot fc then Some (p, churnScore fc, hotRisk fc) else None)
   \<and> hotCandidates churn = List.map_filter hotPathOf churn
   \<and> identifyHotPaths churn = take 20 (sortDesc hp_churnScore (hotCandidates churn))
   \<and> sorted_wrt (\<lambda>a b. hp_churnScore a \<ge> hp_churnScore b) (identifyHotPaths churn)
   \<and> length (identifyHotPaths churn) \<le> 20
   \<and> set (identifyHotPaths churn) \<subseteq> set (hotCandidates churn)"
proof -
  have s: "sorted_wrt (\<lambda>a b. hp_churnScore a \<ge> hp_churnScore b) (identifyHotPaths churn)"
    unfolding identifyHotPaths_def slice0_def by (rule take_sorted_wrt) (rule sortDesc_sorted)
  have sub: "set (identifyHotPaths churn) \<subseteq> set (hotCandidates churn)"
    unfolding identifyHotPaths_def slice0_def using set_take_subset [of 20 "sortDesc hp_churnScore (hotCandidates churn)"]
    by (simp add: sortDesc_set)
  show ?thesis
    using s sub hotPathOf_summary [of p fc]
    by (simp add: hotCandidates_def identifyHotPaths_def slice0_def)
qed

subsection \<open>C9: the two passes agree\<close>

text \<open>
  C9. For every file of the churn table, the commit counts of the contributors that the
  ownership pass tallies, before truncation, add up to the file's \<open>totalCommits\<close>, and the
  rounded percentages add up to 100 within half a point per contributor. The ownership
  record of the file is built from exactly these contributors.
\<close>

theorem contributor_counts_add_up:
  "\<forall>(p, fc) \<in> set (analyzeFileChurn now commits).
     (let cs = contributorsOf (authorDataOf (fileAuthorCommits commits) p) (totalCommits fc)
      in sum_list (map ct_commits cs) = totalCommits fc
         \<and> 2 * \<bar>sum_list (map ct_percent cs) - 100\<bar> \<le> int (length cs)
         \<and> map_of (analyzeFileOwnership (analyzeFileChurn now commits) commits) p
             = Some (ownershipOf (fileAuthorCommits commits) p fc)
         \<and> contributors (ownershipOf (fileAuthorCommits commits) p fc) = slice0 5 cs)"
proof (intro ballI)
  fix e assume e: "e \<in> set (analyzeFileChurn now commits)"
  obtain p fc where pf: "e = (p, fc)" by (cases e)
  from e pf have mem: "(p, fc) \<in> set (analyzeFileChurn now commits)" by simp
  then obtain m where m: "authorDataOf (fileAuthorCommits commits) p = m"
    "sum_list (map (\<lambda>e. ac_count (snd e)) m) = totalCommits fc" "1 \<le> totalCommits fc"
    by (rule produced_tally)
  have 1: "sum_list (map ct_commits (contributorsOf m (totalCommits fc))) = totalCommits fc"
    by (simp add: contributorsOf_commits m)
  have 2: "2 * \<bar>sum_list (map ct_percent (contributorsOf m (totalCommits fc))) - 100\<bar>
      \<le> int (length (contributorsOf m (totalCommits fc)))"
    using percents_near_100 [of m "totalCommits fc"] m by (simp add: contributorsOf_length)
  have "map_of (analyzeFileChurn now commits) p = Some fc"
    using mem analyzeFileChurn_distinct [of now commits] by simp
  then have 3: "map_of (analyzeFileOwnership (analyzeFileChurn now commits) commits) p
             = Some (ownershipOf (fileAuthorCommits commits) p fc)"
    by (simp add: analyzeFileOwnership_lookup)
  have 4: "contributors (ownershipOf (fileAuthorCommits commits) p fc)
      = slice0 5 (contributorsOf m (totalCommits fc))"
    by (simp add: ownershipOf_def Let_def m)
  show "case e of (p, fc) \<Rightarrow>
     (let cs = contributorsOf (authorDataOf (fileAuthorCommits commits) p) (totalCommits fc)
      in sum_list (map ct_commits cs) = totalCommits fc
         \<and> 2 * \<bar>sum_list (map ct_percent cs) - 100\<bar> \<le> int (length cs)
         \<and> map_of (analyzeFileOwnership (analyzeFileChurn now commits) commits) p
             = Some (ownershipOf (fileAuthorCommits commits) p fc)
         \<and> contributors (ownershipOf (fileAuthorCommits commits) p fc) = slice0 5 cs)"
    unfolding pf prod.case Let_def m using 1 2 3 4 by (intro conjI)
qed

theorem contributor_counts_add_up_witness:
  "(''src/auth.ts'', churnA) \<in> set (analyzeFileChurn (400 * msPerDay) scenarioA)
   \<and> contributorsOf (authorDataOf (fileAuthorCommits scenarioA) ''src/auth.ts'') (totalCommits churnA)
       = contributorsA
   \<and> sum_list (map ct_commits contributorsA) = totalCommits churnA
   \<and> 2 * \<bar>sum_list (map ct_percent contributorsA) - 100\<bar> \<le> int (length contributorsA)
   \<and> map_of (analyzeFileOwnership (analyzeFileChurn (400 * msPerDay) scenarioA) scenarioA) ''src/auth.ts''
       = Some (ownershipOf (fileAuthorCommits scenarioA) ''src/auth.ts'' churnA)
   \<and> contributors (ownershipOf (fileAuthorCommits scenarioA) ''src/auth.ts'' churnA) = slice0 5 contributorsA"
proof -
  have m: "(''src/auth.ts'', churnA) \<in> set (analyzeFileChurn (400 * msPerDay) scenarioA)"
    by (simp add: scenarioA_churn)
  have c: "contributorsOf (authorDataOf (fileAuthorCommits scenarioA) ''src/auth.ts'') (totalCommits churnA)
       = contributorsA"
    using scenarioA_contributors by (simp add: churnA_def)
  from contributor_counts_add_up [of "400 * msPerDay" scenarioA] m
  have "let cs = contributorsOf (authorDataOf (fileAuthorCommits scenarioA) ''src/auth.ts'') (totalCommits churnA)
      in sum_list (map ct_commits cs) = totalCommits churnA
         \<and> 2 * \<bar>sum_list (map ct_percent cs) - 100\<bar> \<le> int (length cs)
         \<and> map_of (analyzeFileOwnership (analyzeFileChurn (400 * msPerDay) scenarioA) scenarioA) ''src/auth.ts''
             = Some (ownershipOf (fileAuthorCommits scenarioA) ''src/auth.ts'' churnA)
         \<and> contributors (ownershipOf (fileAuthorCommits scenarioA) ''src/auth.ts'' churnA) = slice0 5 cs"
    by blast
  with m c show ?thesis by (simp add: Let_def)
qed

subsection \<open>C10: the quick lookup of fragile files\<close>

text \<open>
  C10. \<open>recentlyFragile\<close> is computed from the list that identifyFragileFiles returned, which
  is sorted descending by fragile score and cut after 20: it has at most 10 paths, each the
  path of one of these at most 20 files with a fragile score above 5. Paths being distinct
  in a churn table (as in the one of every run), a file is absent from it whenever at least
  20 files have a strictly higher fragile score, whatever its own score.
\<close>

theorem recently_fragile_after_cap:
  "(fragileFiles (buildHistory clock rp commits)
      = identifyFragileFiles (fileChurn (buildHistory clock rp commits))
          (fileOwnership (buildHistory clock rp commits)) commits
    \<and> recentlyFragile (buildHistory clock rp commits)
      = recentlyFragileOf (fragileFiles (buildHistory clock rp commits))
    \<and> distinct (map fst (fileChurn (buildHistory clock rp commits))))
   \<and> identifyFragileFiles churn own cs = take 20 (sortDesc fragileScore (fragileCandidates churn cs))
   \<and> recentlyFragileOf ffs = map ff_path (take 10 (filter (\<lambda>f. fragileScore f > 5) ffs))
   \<and> length (recentlyFragileOf ffs) \<le> 10
   \<and> (\<forall>p \<in> set (recentlyFragileOf (identifyFragileFiles churn own cs)).
         \<exists>f \<in> set (identifyFragileFiles churn own cs). ff_path f = p \<and> fragileScore f > 5)
   \<and> (distinct (map fst churn) \<longrightarrow>
        (\<forall>f \<in> set (fragileCandidates churn cs).
           20 \<le> length (filter (\<lambda>g. fragileScore g > fragileScore f) (fragileCandidates churn cs))
           \<longrightarrow> ff_path f \<notin> set (recentlyFragileOf (identifyFragileFiles churn own cs))))"
proof -
  have a: "fragileFiles (buildHistory clock rp commits)
      = identifyFragileFiles (fileChurn (buildHistory clock rp commits))
          (fileOwnership (buildHistory clock rp commits)) commits"
    "recentlyFragile (buildHistory clock rp commits)
      = recentlyFragileOf (fragileFiles (buildHistory clock rp commits))"
    "distinct (map fst (fileChurn (buildHistory clock rp commits)))"
    by (simp_all only: buildHistory_fields analyzeFileChurn_distinct)
  have b: "identifyFragileFiles churn own cs = take 20 (sortDesc fragileScore (fragileCandidates churn cs))"
    "recentlyFragileOf ffs = map ff_path (take 10 (filter (\<lambda>f. fragileScore f > 5) ffs))"
    by (simp_all add: identifyFragileFiles_def recentlyFragileOf_def slice0_def)
  have c: "\<forall>p \<in> set (recentlyFragileOf (identifyFragileFiles churn own cs)).
         \<exists>f \<in> set (identifyFragileFiles churn own cs). ff_path f = p \<and> fragileScore f > 5"
    using recentlyFragileOf_member by blast
  have d: "distinct (map fst churn) \<longrightarrow>
        (\<forall>f \<in> set (fragileCandidates churn cs).
           20 \<le> length (filter (\<lambda>g. fragileScore g > fragileScore f) (fragileCandidates churn cs))
           \<longrightarrow> ff_path f \<notin> set (recentlyFragileOf (identifyFragileFiles churn own cs)))"
    using crowded_out by blast
  from a b c d recentlyFragileOf_length [of ffs] show ?thesis by (intro conjI)
qed

theorem recently_fragile_after_cap_witness:
  "distinct (map fst crowdTable)
   \<and> crowdLow \<in> set (fragileCandidates crowdTable [])
   \<and> 5 < fragileScore crowdLow
   \<and> 20 \<le> length (filter (\<lambda>g. fragileScore g > fragileScore crowdLow) (fragileCandidates crowdTable []))
   \<and> ff_path crowdLow \<notin> set (recentlyFragileOf (identifyFragileFiles crowdTable [] []))
   \<and> ''src/fa.ts'' \<in> set (recentlyFragileOf (identifyFragileFiles crowdTable [] []))
   \<and> (\<exists>f \<in> set (identifyFragileFiles crowdTable [] []). ff_path f = ''src/fa.ts'' \<and> fragileScore f > 5)"
proof -
  note t = recently_fragile_after_cap [of clock0 "''/repo''" "[]" crowdTable "[]" "[]" "[]"]
  have d: "distinct (map fst crowdTable)" by (rule crowd_distinct)
  have l: "crowdLow \<in> set (fragileCandidates crowdTable [])" by (rule crowd_low)
  have s: "5 < fragileScore crowdLow" by (simp add: crowdLow_def)
  have n: "20 \<le> length (filter (\<lambda>g. fragileScore g > fragileScore crowdLow) (fragileCandidates crowdTable []))"
    by (simp only: crowd_higher)
  have m: "''src/fa.ts'' \<in> set (recentlyFragileOf (identifyFragileFiles crowdTable [] []))"
    by (simp only: crowd_recent) code_simp
  from t have "\<forall>p \<in> set (recentlyFragileOf (identifyFragileFiles crowdTable [] [])).
         \<exists>f \<in> set (identifyFragileFiles crowdTable [] []). ff_path f = p \<and> fragileScore f > 5"
    by (elim conjE)
  with m have e: "\<exists>f \<in> set (identifyFragileFiles crowdTable [] []). ff_path f = ''src/fa.ts'' \<and> fragileScore f > 5"
    by (rule bspec [rotated])
  from t have "distinct (map fst crowdTable) \<longrightarrow>
        (\<forall>f \<in> set (fragileCandidates crowdTable []).
           20 \<le> length (filter (\<lambda>g. fragileScore g > fragileScore f) (fragileCandidates crowdTable []))
           \<longrightarrow> ff_path f \<notin> set (recentlyFragileOf (identifyFragileFiles crowdTable [] [])))"
    by (elim conjE)
  with d l n have a: "ff_path crowdLow \<notin> set (recentlyFragileOf (identifyFragileFiles crowdTable [] []))"
    by blast
  from d l s n a m e show ?thesis by (intro conjI)
qed

end
